theory Spec2Isabelle
  imports Complex_Main "HOL-Library.Multiset" "HOL-Library.Char_ord" "HOL-Library.List_Lexorder"
begin

section \<open>The user table: sort state\<close>

text \<open>
  The component \<open>UserTable\<close> keeps two pieces of React state: \<open>sortField\<close>, one of the
  keys \<open>'name'\<close>, \<open>'email'\<close>, \<open>'created_at'\<close> named by the documentation of
  \<open>handleSort\<close>, and \<open>sortDirection\<close>, typed \<open>'asc' | 'desc'\<close>.
\<close>

datatype field = Name | Email | Created_at

datatype direction = Asc | Desc

record sort_state =
  sortField :: field
  sortDirection :: direction

text \<open>\<open>useState('name')\<close> and \<open>useState('asc')\<close>.\<close>

definition initial_sort_state :: sort_state where
  "initial_sort_state = \<lparr>sortField = Name, sortDirection = Asc\<rparr>"

text \<open>
  \<open>handleSort(field)\<close>: the same field flips the direction, another field becomes the
  active one and the direction is set to \<open>'asc'\<close>. Both setters take effect at the next
  render, so the handler maps the rendered state to the next one.
\<close>

definition handleSort :: "field \<Rightarrow> sort_state \<Rightarrow> sort_state" where
  "handleSort fld st =
     (if sortField st = fld
      then st\<lparr>sortDirection := (if sortDirection st = Asc then Desc else Asc)\<rparr>
      else st\<lparr>sortField := fld, sortDirection := Asc\<rparr>)"

text \<open>
  \<open>getSortIcon(field)\<close> returns one of three icons: a muted \<open>ChevronUp\<close> for a column
  that is not the active one, and for the active column a \<open>ChevronUp\<close> or a
  \<open>ChevronDown\<close> in the primary colour.
\<close>

datatype sort_icon = Neutral_ChevronUp | Active_ChevronUp | Active_ChevronDown

definition getSortIcon :: "sort_state \<Rightarrow> field \<Rightarrow> sort_icon" where
  "getSortIcon st fld =
     (if sortField st \<noteq> fld then Neutral_ChevronUp
      else if sortDirection st = Asc then Active_ChevronUp else Active_ChevronDown)"

text \<open>
  The table head wires \<open>onClick\<close> on two of its three headers: \<open>handleSort('name')\<close> on
  the first and \<open>handleSort('created_at')\<close> on the third. The second header, the e-mail
  column, has no handler. A state is reachable when header clicks lead to it from the
  initial state.
\<close>

inductive reachable :: "sort_state \<Rightarrow> bool" where
  reachable_initial: "reachable initial_sort_state"
| reachable_click_name: "reachable st \<Longrightarrow> reachable (handleSort Name st)"
| reachable_click_created_at: "reachable st \<Longrightarrow> reachable (handleSort Created_at st)"

section \<open>JavaScript values\<close>

text \<open>
  The values a property of a fetched row can hold here: absent (\<open>undefined\<close>), \<open>null\<close>
  or a string; the comparator itself makes \<open>Date\<close> objects, whose time value is a whole
  number of milliseconds or \<open>NaN\<close> (\<open>None\<close>). A string is a sequence of code units;
  the code units represented are those up to \<open>U+00FF\<close>, one \<open>char\<close> each.
\<close>

datatype jsval = JUndefined | JNull | JString string | JDate "int option"

datatype jsnum = NaN | NegInfinity | Finite real | PosInfinity

datatype error = TypeError

text \<open>The numeric \<open><\<close>: false as soon as one side is \<open>NaN\<close>.\<close>

fun num_less :: "jsnum \<Rightarrow> jsnum \<Rightarrow> bool" where
  "num_less NaN _ = False"
| "num_less _ NaN = False"
| "num_less NegInfinity NegInfinity = False"
| "num_less NegInfinity _ = True"
| "num_less (Finite x) (Finite y) = (x < y)"
| "num_less (Finite x) PosInfinity = True"
| "num_less (Finite x) NegInfinity = False"
| "num_less PosInfinity _ = False"

text \<open>
  What the engine supplies and the repository does not define: \<open>Date.parse\<close> (the time
  value of a date string, \<open>None\<close> for an invalid date) and the numeric reading of a
  string.
\<close>

record host =
  Date_parse :: "string \<Rightarrow> int option"
  StringToNumber :: "string \<Rightarrow> jsnum"

text \<open>
  \<open>String.prototype.toLowerCase\<close> on code units up to \<open>U+00FF\<close>: \<open>A\<close>--\<open>Z\<close> and
  \<open>U+00C0\<close>--\<open>U+00DE\<close> without the multiplication sign \<open>U+00D7\<close> move up by 32.
\<close>

definition lower_char :: "char \<Rightarrow> char" where
  "lower_char c =
     (let n = (of_char c :: nat)
      in if (65 \<le> n \<and> n \<le> 90) \<or> (192 \<le> n \<and> n \<le> 222 \<and> n \<noteq> 215)
         then char_of (n + 32) else c)"

definition toLowerCase :: "string \<Rightarrow> string" where
  "toLowerCase s = map lower_char s"

text \<open>
  \<open>new Date(v)\<close>: \<open>undefined\<close> gives an invalid date, \<open>null\<close> is the number 0 and
  gives the epoch, a string is parsed, a date is copied.
\<close>

definition new_Date :: "host \<Rightarrow> jsval \<Rightarrow> jsval" where
  "new_Date h v =
     (case v of
        JUndefined \<Rightarrow> JDate None
      | JNull \<Rightarrow> JDate (Some 0)
      | JString s \<Rightarrow> JDate (Date_parse h s)
      | JDate t \<Rightarrow> JDate t)"

definition ToNumber :: "host \<Rightarrow> jsval \<Rightarrow> jsnum" where
  "ToNumber h v =
     (case v of
        JUndefined \<Rightarrow> NaN
      | JNull \<Rightarrow> Finite 0
      | JString s \<Rightarrow> StringToNumber h s
      | JDate None \<Rightarrow> NaN
      | JDate (Some t) \<Rightarrow> Finite (of_int t))"

text \<open>
  The relational operator: two strings are compared by code units, in lexicographic
  order; every other pair is compared as numbers. \<open>a > b\<close> is \<open>b < a\<close>.
\<close>

fun js_less :: "host \<Rightarrow> jsval \<Rightarrow> jsval \<Rightarrow> bool" where
  "js_less h (JString s) (JString t) = (s < t)"
| "js_less h a b = num_less (ToNumber h a) (ToNumber h b)"

section \<open>The user table: ordering the rows\<close>

text \<open>
  A row of the table, with the shape the component's \<open>propTypes\<close> give it. The
  comparator reads \<open>name\<close>, \<open>email\<close> and \<open>created_at\<close>; \<open>id\<close> tells rows apart.
\<close>

record user =
  user_id :: int
  name :: jsval
  email :: jsval
  created_at :: jsval

text \<open>\<open>a[sortField]\<close>.\<close>

definition get_field :: "user \<Rightarrow> field \<Rightarrow> jsval" where
  "get_field u fld =
     (case fld of Name \<Rightarrow> name u | Email \<Rightarrow> email u | Created_at \<Rightarrow> created_at u)"

text \<open>
  \<open>if (typeof aValue === 'string') { aValue = aValue.toLowerCase(); bValue =
  bValue.toLowerCase(); }\<close>: when the first value is a string and the second is not, the
  second call raises a \<open>TypeError\<close>.
\<close>

fun fold_case :: "jsval \<Rightarrow> jsval \<Rightarrow> error + jsval \<times> jsval" where
  "fold_case (JString s) (JString t) = Inr (JString (toLowerCase s), JString (toLowerCase t))"
| "fold_case (JString s) b = Inl TypeError"
| "fold_case a b = Inr (a, b)"

text \<open>The last lines of the comparator, from the results of \<open><\<close> and \<open>>\<close>.\<close>

definition order_result :: "direction \<Rightarrow> bool \<Rightarrow> bool \<Rightarrow> int" where
  "order_result sd lt gt =
     (if lt then (if sd = Asc then - 1 else 1)
      else if gt then (if sd = Asc then 1 else - 1)
      else 0)"

text \<open>The comparator that \<open>sortedUsers\<close> passes to \<open>sort\<close>.\<close>

definition compareUsers ::
  "host \<Rightarrow> field \<Rightarrow> direction \<Rightarrow> user \<Rightarrow> user \<Rightarrow> error + int" where
  "compareUsers h sf sd a b =
     (let aValue = get_field a sf;
          bValue = get_field b sf;
          aDate = (if sf = Created_at then new_Date h aValue else aValue);
          bDate = (if sf = Created_at then new_Date h bValue else bValue)
      in case fold_case aDate bDate of
           Inl e \<Rightarrow> Inl e
         | Inr (x, y) \<Rightarrow> Inr (order_result sd (js_less h x y) (js_less h y x)))"

text \<open>
  \<open>Array.prototype.sort\<close> is the engine's. The language standard makes it stable;
  which pairs it compares, and which row of a pair it passes first, is the engine's
  choice. For a comparator that is consistent on the elements the result does not depend
  on that choice: it is the one permutation that is ordered and keeps equal elements in
  their input order. The model inserts from the right, passing the earlier row first: an
  element is put in front of the first element that it does not compare greater than.
  An exception of the comparator ends the sort. An engine that passes the later row first
  can differ from the model only on rows where the comparator raises or is inconsistent;
  the theorems on \<open>sortedUsers\<close> below are about rows where it is neither.
\<close>

fun Array_insert :: "('a \<Rightarrow> 'a \<Rightarrow> error + int) \<Rightarrow> 'a \<Rightarrow> 'a list \<Rightarrow> error + 'a list" where
  "Array_insert cmp x [] = Inr [x]"
| "Array_insert cmp x (y # ys) =
     (case cmp x y of
        Inl e \<Rightarrow> Inl e
      | Inr c \<Rightarrow>
          if c \<le> 0 then Inr (x # y # ys)
          else (case Array_insert cmp x ys of Inl e \<Rightarrow> Inl e | Inr zs \<Rightarrow> Inr (y # zs)))"

fun Array_sort :: "('a \<Rightarrow> 'a \<Rightarrow> error + int) \<Rightarrow> 'a list \<Rightarrow> error + 'a list" where
  "Array_sort cmp [] = Inr []"
| "Array_sort cmp (x # xs) =
     (case Array_sort cmp xs of Inl e \<Rightarrow> Inl e | Inr ys \<Rightarrow> Array_insert cmp x ys)"

text \<open>The memo \<open>sortedUsers\<close>: an empty list for no users, else a sorted copy.\<close>

definition sortedUsers :: "host \<Rightarrow> user list \<Rightarrow> field \<Rightarrow> direction \<Rightarrow> error + user list" where
  "sortedUsers h users sf sd =
     (if length users = 0 then Inr [] else Array_sort (compareUsers h sf sd) users)"

section \<open>The ordered view of the specification\<close>

text \<open>
  The specification's \<open>orderedView\<close>, in its own words: a stable sort by the case-folded
  string for \<open>name\<close> and \<open>email\<close> and by the instant for \<open>createdAt\<close>, descending by
  turning the order around.
\<close>

fun stable_insert :: "('a \<Rightarrow> 'a \<Rightarrow> bool) \<Rightarrow> 'a \<Rightarrow> 'a list \<Rightarrow> 'a list" where
  "stable_insert le x [] = [x]"
| "stable_insert le x (y # ys) = (if le x y then x # y # ys else y # stable_insert le x ys)"

fun stable_sort :: "('a \<Rightarrow> 'a \<Rightarrow> bool) \<Rightarrow> 'a list \<Rightarrow> 'a list" where
  "stable_sort le [] = []"
| "stable_sort le (x # xs) = stable_insert le x (stable_sort le xs)"

definition key_le :: "direction \<Rightarrow> ('a \<Rightarrow> 'k::linorder) \<Rightarrow> 'a \<Rightarrow> 'a \<Rightarrow> bool" where
  "key_le sd key a b = (if sd = Asc then key a \<le> key b else key b \<le> key a)"

definition folded_key :: "field \<Rightarrow> user \<Rightarrow> string" where
  "folded_key sf u = (case get_field u sf of JString s \<Rightarrow> toLowerCase s | _ \<Rightarrow> [])"

definition instant_key :: "host \<Rightarrow> user \<Rightarrow> int" where
  "instant_key h u = (case new_Date h (created_at u) of JDate (Some t) \<Rightarrow> t | _ \<Rightarrow> 0)"

text \<open>
  A row is well formed for a field when the field's value has a sort key: a string for
  \<open>name\<close> and \<open>email\<close>, a value that \<open>new Date\<close> turns into a valid date for
  \<open>created_at\<close>.
\<close>

definition string_valued :: "field \<Rightarrow> user \<Rightarrow> bool" where
  "string_valued sf u = (case get_field u sf of JString s \<Rightarrow> True | _ \<Rightarrow> False)"

definition valid_date :: "host \<Rightarrow> user \<Rightarrow> bool" where
  "valid_date h u = (case new_Date h (created_at u) of JDate (Some t) \<Rightarrow> True | _ \<Rightarrow> False)"

definition well_formed :: "host \<Rightarrow> field \<Rightarrow> user \<Rightarrow> bool" where
  "well_formed h sf u = (if sf = Created_at then valid_date h u else string_valued sf u)"

definition ordered_by :: "host \<Rightarrow> field \<Rightarrow> direction \<Rightarrow> user list \<Rightarrow> bool" where
  "ordered_by h sf sd ys =
     (if sf = Created_at then sorted_wrt (key_le sd (instant_key h)) ys
      else sorted_wrt (key_le sd (folded_key sf)) ys)"

definition orderedView :: "host \<Rightarrow> user list \<Rightarrow> field \<Rightarrow> direction \<Rightarrow> user list" where
  "orderedView h records sf sd =
     (if sf = Created_at then stable_sort (key_le sd (instant_key h)) records
      else stable_sort (key_le sd (folded_key sf)) records)"

section \<open>The session: local storage, the HTTP client and the pages\<close>

text \<open>\<open>localStorage\<close>: \<open>getItem\<close> gives \<open>null\<close> (\<open>None\<close>) for a key that is not set.\<close>

type_synonym storage = "string \<Rightarrow> string option"

definition getItem :: "storage \<Rightarrow> string \<Rightarrow> string option" where
  "getItem ls k = ls k"

definition setItem :: "string \<Rightarrow> string \<Rightarrow> storage \<Rightarrow> storage" where
  "setItem k v ls = ls(k \<mapsto> v)"

definition removeItem :: "string \<Rightarrow> storage \<Rightarrow> storage" where
  "removeItem k ls = ls(k := None)"

text \<open>
  What the session code reads and writes of the browser: the local storage and the path
  shown. \<open>navigate(p)\<close> and \<open>window.location.href = p\<close> both set the path.
\<close>

record browser =
  localStorage :: storage
  location :: string

datatype http_method = GET | POST

record request =
  request_method :: http_method
  url :: string
  Authorization :: "string option"
  post_data :: "(string \<times> string) list"
  params :: "(string \<times> string) list"

record 'd response =
  status :: nat
  data :: 'd

text \<open>
  The request interceptor: \<open>if (token)\<close> holds for a stored token that is not the empty
  string.
\<close>

definition request_interceptor :: "browser \<Rightarrow> request \<Rightarrow> request" where
  "request_interceptor br config =
     (case getItem (localStorage br) ''authToken'' of
        None \<Rightarrow> config
      | Some token \<Rightarrow>
          if token = [] then config else config\<lparr>Authorization := Some (''Bearer '' @ token)\<rparr>)"

text \<open>
  The two \<open>removeItem\<close> calls, which the response interceptor, \<open>loadUsers\<close> and
  \<open>handleLogout\<close> each make in this order.
\<close>

definition clear_session :: "browser \<Rightarrow> browser" where
  "clear_session br =
     br\<lparr>localStorage := removeItem ''user'' (removeItem ''authToken'' (localStorage br))\<rparr>"

text \<open>
  The error handler of the response interceptor. The error carries the response, if there
  was one (\<open>error.response?.status\<close>); the handler rejects with the same error.
\<close>

definition response_error_interceptor ::
  "'d response option \<Rightarrow> browser \<Rightarrow> ('d response option + 'a) \<times> browser" where
  "response_error_interceptor error br =
     (Inl error,
      case error of
        Some r \<Rightarrow> if status r = 401 then (clear_session br)\<lparr>location := ''/login''\<rparr> else br
      | None \<Rightarrow> br)"

text \<open>
  A call through the client \<open>api\<close>. The server is a function from the request sent to the
  response, \<open>None\<close> when no response arrives (no connection, timeout). The client
  resolves with a status from 200 to 299 and rejects otherwise. The API functions return
  \<open>response.data\<close>.
\<close>

definition api_request ::
  "(request \<Rightarrow> 'd response option) \<Rightarrow> request \<Rightarrow> browser
     \<Rightarrow> ('d response option + 'd) \<times> browser" where
  "api_request server config br =
     (case server (request_interceptor br config) of
        Some r \<Rightarrow>
          if 200 \<le> status r \<and> status r < 300 then (Inr (data r), br)
          else response_error_interceptor (Some r) br
      | None \<Rightarrow> response_error_interceptor None br)"

text \<open>The properties of a response body that the pages read.\<close>

record 'u body =
  success :: bool
  token :: string
  user :: 'u
  users :: "user list"

definition login_request :: "string \<Rightarrow> string \<Rightarrow> request" where
  "login_request mail password =
     \<lparr>request_method = POST, url = ''/auth/login'', Authorization = None,
      post_data = [(''email'', mail), (''password'', password)], params = []\<rparr>"

definition register_request :: "string \<Rightarrow> string \<Rightarrow> string \<Rightarrow> string \<Rightarrow> request" where
  "register_request nm mail password password_confirmation =
     \<lparr>request_method = POST, url = ''/auth/register'', Authorization = None,
      post_data = [(''name'', nm), (''email'', mail), (''password'', password),
        (''password_confirmation'', password_confirmation)],
      params = []\<rparr>"

definition logout_request :: request where
  "logout_request =
     \<lparr>request_method = POST, url = ''/auth/logout'', Authorization = None, post_data = [], params = []\<rparr>"

definition getUsers_request :: "string \<Rightarrow> string \<Rightarrow> request" where
  "getUsers_request sortBy sortDir =
     \<lparr>request_method = GET, url = ''/users'', Authorization = None, post_data = [],
      params = [(''sort_by'', sortBy), (''sort_direction'', sortDir)]\<rparr>"

definition authAPI_login ::
  "(request \<Rightarrow> 'd response option) \<Rightarrow> string \<Rightarrow> string \<Rightarrow> browser
     \<Rightarrow> ('d response option + 'd) \<times> browser" where
  "authAPI_login server mail password br =
     api_request server (login_request mail password) br"

definition authAPI_register ::
  "(request \<Rightarrow> 'd response option) \<Rightarrow> string \<Rightarrow> string \<Rightarrow> string \<Rightarrow> string \<Rightarrow> browser
     \<Rightarrow> ('d response option + 'd) \<times> browser" where
  "authAPI_register server nm mail password password_confirmation br =
     api_request server (register_request nm mail password password_confirmation) br"

definition authAPI_logout ::
  "(request \<Rightarrow> 'd response option) \<Rightarrow> browser \<Rightarrow> ('d response option + 'd) \<times> browser" where
  "authAPI_logout server br = api_request server logout_request br"

definition usersAPI_getUsers ::
  "(request \<Rightarrow> 'd response option) \<Rightarrow> string \<Rightarrow> string \<Rightarrow> browser
     \<Rightarrow> ('d response option + 'd) \<times> browser" where
  "usersAPI_getUsers server sortBy sortDir br =
     api_request server (getUsers_request sortBy sortDir) br"

text \<open>
  The page handlers, as transformers of the browser state. The components' own state
  (\<open>loading\<close>, the error message shown) is left out; \<open>loadUsers\<close> also gives the list it
  sets, \<open>handleRegister\<close> whether it returns the response or throws.
\<close>

definition handleLogin ::
  "('u \<Rightarrow> string) \<Rightarrow> (request \<Rightarrow> 'u body response option) \<Rightarrow> string \<Rightarrow> string
     \<Rightarrow> browser \<Rightarrow> browser" where
  "handleLogin JSON_stringify server mail password br =
     (case authAPI_login server mail password br of
        (Inr response, br') \<Rightarrow>
          if success response
          then br'\<lparr>localStorage :=
                  setItem ''user'' (JSON_stringify (user response))
                    (setItem ''authToken'' (token response) (localStorage br')),
                location := ''/users''\<rparr>
          else br'
      | (Inl err, br') \<Rightarrow> br')"

definition handleRegister ::
  "(request \<Rightarrow> 'u body response option) \<Rightarrow> string \<Rightarrow> string \<Rightarrow> string \<Rightarrow> string
     \<Rightarrow> browser \<Rightarrow> (unit + 'u body) \<times> browser" where
  "handleRegister server nm mail password confirmPassword br =
     (case authAPI_register server nm mail password confirmPassword br of
        (Inr response, br') \<Rightarrow>
          if success response then (Inr response, br'\<lparr>location := ''/user-created''\<rparr>)
          else (Inl (), br')
      | (Inl err, br') \<Rightarrow> (Inl (), br'))"

definition loadUsers ::
  "(request \<Rightarrow> 'u body response option) \<Rightarrow> browser \<Rightarrow> user list \<times> browser" where
  "loadUsers server br =
     (case usersAPI_getUsers server ''name'' ''asc'' br of
        (Inr response, br') \<Rightarrow> (if success response then users response else [], br')
      | (Inl err, br') \<Rightarrow>
          ([],
           case err of
             Some r \<Rightarrow>
               if status r = 401 then (clear_session br')\<lparr>location := ''/login''\<rparr> else br'
           | None \<Rightarrow> br'))"

definition handleLogout ::
  "(request \<Rightarrow> 'd response option) \<Rightarrow> browser \<Rightarrow> browser" where
  "handleLogout server br =
     (case authAPI_logout server br of
        (result, br') \<Rightarrow> (clear_session br')\<lparr>location := ''/login''\<rparr>)"

text \<open>No token, no stored user, and the login page shown.\<close>

definition signed_out :: "browser \<Rightarrow> bool" where
  "signed_out br \<longleftrightarrow>
     getItem (localStorage br) ''authToken'' = None \<and>
     getItem (localStorage br) ''user'' = None \<and>
     location br = ''/login''"

section \<open>Example data\<close>

text \<open>
  An engine for the examples: the time values of the four date strings used below, in
  milliseconds since the epoch. No example string is a numeric literal, so the numeric
  reading of each is \<open>NaN\<close>.
\<close>

definition example_host :: host where
  "example_host =
     \<lparr>Date_parse = map_of
        [(''2024-01-01T00:00:00Z'', 1704067200000),
         (''1969-12-31T00:00:00Z'', - 86400000),
         (''2023-12-31T23:00:00Z'', 1704063600000),
         (''2024-01-01T00:00:00+02:00'', 1704060000000)],
      StringToNumber = (\<lambda>s. NaN)\<rparr>"

definition dated :: "int \<Rightarrow> string \<Rightarrow> jsval \<Rightarrow> user" where
  "dated i s d =
     \<lparr>user_id = i, name = JString s, email = JString (s @ ''@test.com''), created_at = d\<rparr>"

definition named :: "int \<Rightarrow> string \<Rightarrow> user" where
  "named i s = dated i s (JString ''2024-01-01T00:00:00Z'')"

definition nameless :: "int \<Rightarrow> user" where
  "nameless i =
     \<lparr>user_id = i, name = JUndefined, email = JNull,
      created_at = JString ''2024-01-01T00:00:00Z''\<rparr>"

definition example_body :: "string body" where
  "example_body =
     \<lparr>success = True, token = ''1|abc'', user = ''{id:1}'', users = [named 1 ''Ana'']\<rparr>"

definition accepting_server :: "request \<Rightarrow> string body response option" where
  "accepting_server config = Some \<lparr>status = 200, data = example_body\<rparr>"

definition rejecting_server :: "request \<Rightarrow> string body response option" where
  "rejecting_server config =
     Some \<lparr>status = 401, data = example_body\<lparr>success := False\<rparr>\<rparr>"

definition failing_server :: "request \<Rightarrow> string body response option" where
  "failing_server config = None"

definition signed_in_browser :: browser where
  "signed_in_browser =
     \<lparr>localStorage = [''authToken'' \<mapsto> ''1|abc'', ''user'' \<mapsto> ''{id:1}''],
      location = ''/users''\<rparr>"

definition fresh_browser :: browser where
  "fresh_browser = \<lparr>localStorage = Map.empty, location = ''/login''\<rparr>"

section \<open>The sort state: theorems\<close>

lemma sortField_handleSort: "sortField (handleSort fld st) = fld"
  by (simp add: handleSort_def)

text \<open>
  C1. For every field and every sort state: \<open>handleSort\<close> on the active field flips the
  direction (ascending to descending, descending to ascending) and keeps the field; on
  another field it makes that field the active one and sets the direction to ascending.
\<close>

theorem handleSort_toggle_or_reset:
  "(sortField st = fld \<longrightarrow>
      sortField (handleSort fld st) = sortField st \<and>
      (sortDirection st = Asc \<longrightarrow> sortDirection (handleSort fld st) = Desc) \<and>
      (sortDirection st = Desc \<longrightarrow> sortDirection (handleSort fld st) = Asc)) \<and>
   (sortField st \<noteq> fld \<longrightarrow>
      sortField (handleSort fld st) = fld \<and> sortDirection (handleSort fld st) = Asc)"
  by (cases "sortDirection st") (simp_all add: handleSort_def)

theorem handleSort_toggle_or_reset_witness:
  "sortField (handleSort Name \<lparr>sortField = Name, sortDirection = Asc\<rparr>) = Name \<and>
   sortDirection (handleSort Name \<lparr>sortField = Name, sortDirection = Asc\<rparr>) = Desc \<and>
   sortDirection (handleSort Name \<lparr>sortField = Name, sortDirection = Desc\<rparr>) = Asc \<and>
   sortField (handleSort Email \<lparr>sortField = Name, sortDirection = Desc\<rparr>) = Email \<and>
   sortDirection (handleSort Email \<lparr>sortField = Name, sortDirection = Desc\<rparr>) = Asc"
  using handleSort_toggle_or_reset [of "\<lparr>sortField = Name, sortDirection = Asc\<rparr>" Name]
    handleSort_toggle_or_reset [of "\<lparr>sortField = Name, sortDirection = Desc\<rparr>" Name]
    handleSort_toggle_or_reset [of "\<lparr>sortField = Name, sortDirection = Desc\<rparr>" Email]
  by simp

text \<open>
  C5, as stated: two calls of \<open>handleSort\<close> with the same field give back the direction
  the state had before the first call, for every field and every state. It fails when the
  field is not the active one and the direction is ascending: from the initial state, two
  clicks on the date header end in direction descending.
\<close>

theorem handleSort_twice_counterexample:
  "sortDirection (handleSort Created_at (handleSort Created_at
      \<lparr>sortField = Name, sortDirection = Asc\<rparr>)) = Desc \<and>
   sortDirection \<lparr>sortField = Name, sortDirection = Asc\<rparr> = Asc \<and>
   sortDirection (handleSort Created_at (handleSort Created_at
      \<lparr>sortField = Name, sortDirection = Asc\<rparr>))
     \<noteq> sortDirection \<lparr>sortField = Name, sortDirection = Asc\<rparr>"
  by (simp add: handleSort_def)

text \<open>
  C5, amended. Two calls of \<open>handleSort\<close> with the field that is active give back the
  state the first call started from, direction included. With a field that is not the
  active one, the two calls leave that field active with direction descending, whatever
  the direction was before.
\<close>

theorem handleSort_twice:
  "(sortField st = fld \<longrightarrow> handleSort fld (handleSort fld st) = st) \<and>
   (sortField st \<noteq> fld \<longrightarrow>
      handleSort fld (handleSort fld st) = \<lparr>sortField = fld, sortDirection = Desc\<rparr>)"
  by (cases "sortDirection st") (auto simp add: handleSort_def)

theorem handleSort_twice_witness:
  "handleSort Name (handleSort Name \<lparr>sortField = Name, sortDirection = Desc\<rparr>)
     = \<lparr>sortField = Name, sortDirection = Desc\<rparr> \<and>
   handleSort Email (handleSort Email \<lparr>sortField = Name, sortDirection = Desc\<rparr>)
     = \<lparr>sortField = Email, sortDirection = Desc\<rparr>"
  using handleSort_twice [of "\<lparr>sortField = Name, sortDirection = Desc\<rparr>" Name]
    handleSort_twice [of "\<lparr>sortField = Name, sortDirection = Desc\<rparr>" Email]
  by simp

lemma reachable_not_email: "reachable st \<Longrightarrow> sortField st \<noteq> Email"
  by (induction rule: reachable.induct)
    (simp_all add: initial_sort_state_def sortField_handleSort)

text \<open>
  C10. Only the name header and the date header call \<open>handleSort\<close>. In every state that
  header clicks reach from the initial state, the active field is not the e-mail field,
  and \<open>getSortIcon\<close> for the e-mail column gives the neutral icon.
\<close>

theorem email_never_active:
  "reachable st \<Longrightarrow>
   sortField st \<noteq> Email \<and> getSortIcon st Email = Neutral_ChevronUp"
  by (simp add: reachable_not_email getSortIcon_def)

theorem email_never_active_witness:
  "reachable (handleSort Created_at (handleSort Name initial_sort_state)) \<and>
   sortField (handleSort Created_at (handleSort Name initial_sort_state)) \<noteq> Email \<and>
   getSortIcon (handleSort Created_at (handleSort Name initial_sort_state)) Email
     = Neutral_ChevronUp"
proof -
  have r: "reachable (handleSort Created_at (handleSort Name initial_sort_state))"
    by (intro reachable.intros)
  show ?thesis
    using r email_never_active [OF r] by simp
qed

section \<open>Stable insertion sort\<close>

lemma mset_stable_insert [simp]: "mset (stable_insert le x ys) = add_mset x (mset ys)"
  by (induction ys) simp_all

lemma mset_stable_sort [simp]: "mset (stable_sort le xs) = mset xs"
  by (induction xs) simp_all

lemma set_stable_insert [simp]: "set (stable_insert le x ys) = insert x (set ys)"
  by (induction ys) auto

lemma set_stable_sort [simp]: "set (stable_sort le xs) = set xs"
  by (induction xs) simp_all

text \<open>A comparator that raises nothing on the elements makes \<open>sort\<close> the stable sort.\<close>

lemma Array_insert_stable_insert:
  "\<forall>y\<in>set ys. cmp x y = Inr (c x y) \<Longrightarrow>
   Array_insert cmp x ys = Inr (stable_insert (\<lambda>a b. c a b \<le> 0) x ys)"
  by (induction ys) simp_all

lemma Array_sort_stable_sort:
  "\<forall>x\<in>set xs. \<forall>y\<in>set xs. cmp x y = Inr (c x y) \<Longrightarrow>
   Array_sort cmp xs = Inr (stable_sort (\<lambda>a b. c a b \<le> 0) xs)"
proof (induction xs)
  case Nil
  then show ?case by simp
next
  case (Cons x xs)
  then have "Array_sort cmp xs = Inr (stable_sort (\<lambda>a b. c a b \<le> 0) xs)"
    by simp
  moreover have "\<forall>y\<in>set (stable_sort (\<lambda>a b. c a b \<le> 0) xs). cmp x y = Inr (c x y)"
    using Cons.prems by simp
  ultimately show ?case
    by (simp add: Array_insert_stable_insert)
qed

lemma order_result_le_0:
  "order_result sd (a < b) (b < a) \<le> 0 \<longleftrightarrow>
   (if sd = Asc then a \<le> b else b \<le> (a::'k::linorder))"
  by (auto simp add: order_result_def)

lemma order_result_eq_0:
  "order_result sd (a < b) (b < a) = 0 \<longleftrightarrow> a = (b::'k::linorder)"
  by (auto simp add: order_result_def)

lemma key_le_order_result:
  "(\<lambda>a b. order_result sd (key a < key b) (key b < key a) \<le> 0)
     = key_le sd (key :: 'a \<Rightarrow> 'k::linorder)"
  by (simp add: fun_eq_iff order_result_le_0 key_le_def)

lemma sorted_stable_insert:
  "sorted_wrt (key_le sd key) ys \<Longrightarrow>
   sorted_wrt (key_le sd key) (stable_insert (key_le sd key) x ys)"
  by (induction ys) (auto simp add: key_le_def split: if_splits)

lemma sorted_stable_sort: "sorted_wrt (key_le sd key) (stable_sort (key_le sd key) xs)"
  by (induction xs) (simp_all add: sorted_stable_insert)

lemma filter_stable_insert:
  "filter (\<lambda>u. key u = k) (stable_insert (key_le sd key) x ys)
     = filter (\<lambda>u. key u = k) (x # ys)"
  by (induction ys) (auto simp add: key_le_def)

lemma filter_stable_sort:
  "filter (\<lambda>u. key u = k) (stable_sort (key_le sd key) xs) = filter (\<lambda>u. key u = k) xs"
  by (induction xs) (simp_all add: filter_stable_insert)

lemma stable_insert_head:
  "\<forall>y\<in>set ys. le x y \<Longrightarrow> stable_insert le x ys = x # ys"
  by (cases ys) simp_all

lemma stable_sort_sorted: "sorted_wrt le ys \<Longrightarrow> stable_sort le ys = ys"
  by (induction ys) (simp_all add: stable_insert_head)

lemma stable_sort_idem:
  "stable_sort (key_le sd key) (stable_sort (key_le sd key) xs)
     = stable_sort (key_le sd key) xs"
  by (simp add: stable_sort_sorted sorted_stable_sort)

text \<open>Ascending, it is the library's \<open>sort_key\<close>.\<close>

lemma stable_sort_Asc: "stable_sort (key_le Asc key) xs = sort_key key xs"
proof -
  have "stable_insert (key_le Asc key) x ys = insort_key key x ys" for x ys
    by (induction ys) (simp_all add: key_le_def)
  then show ?thesis
    by (induction xs) simp_all
qed

text \<open>
  It is the only list that is a permutation of the input, ordered by the key, and keeps
  the rows of each key in their input order: every stable sort computes it.
\<close>

lemma key_le_antisym:
  "key_le sd key a b \<Longrightarrow> key_le sd key b a \<Longrightarrow> key a = key b"
  by (auto simp add: key_le_def split: if_splits)

lemma sorted_lists_equal:
  assumes "mset ys = mset zs"
    and "sorted_wrt (key_le sd key) ys" "sorted_wrt (key_le sd key) zs"
    and "\<forall>k. filter (\<lambda>u. key u = k) ys = filter (\<lambda>u. key u = k) zs"
  shows "ys = zs"
  using assms
proof (induction ys arbitrary: zs)
  case Nil
  then show ?case by simp
next
  case (Cons y ys)
  then obtain z zs' where zs: "zs = z # zs'"
    by (cases zs) auto
  have "y \<in> set zs" "z \<in> set (y # ys)"
    using Cons.prems(1) zs by (metis list.set_intros(1) set_mset_mset)+
  then have "key_le sd key z y" "key_le sd key y z"
    using Cons.prems(2,3) zs by (auto simp add: key_le_def)
  then have k: "key y = key z"
    using key_le_antisym [of sd key y z] by simp
  have "filter (\<lambda>u. key u = key y) (y # ys) = filter (\<lambda>u. key u = key y) (z # zs')"
    using Cons.prems(4) zs by blast
  with k have yz: "y = z"
    by simp
  have "ys = zs'"
  proof (rule Cons.IH)
    show "mset ys = mset zs'"
      using Cons.prems(1) zs yz by simp
    show "sorted_wrt (key_le sd key) ys" "sorted_wrt (key_le sd key) zs'"
      using Cons.prems(2,3) zs by simp_all
    show "\<forall>k. filter (\<lambda>u. key u = k) ys = filter (\<lambda>u. key u = k) zs'"
    proof
      fix k
      have "filter (\<lambda>u. key u = k) (y # ys) = filter (\<lambda>u. key u = k) (z # zs')"
        using Cons.prems(4) zs by blast
      then show "filter (\<lambda>u. key u = k) ys = filter (\<lambda>u. key u = k) zs'"
        using yz by (simp split: if_splits)
    qed
  qed
  with yz zs show ?case
    by simp
qed

lemma stable_sort_unique:
  assumes "mset ys = mset xs"
    and "sorted_wrt (key_le sd key) ys"
    and "\<forall>k. filter (\<lambda>u. key u = k) ys = filter (\<lambda>u. key u = k) xs"
  shows "ys = stable_sort (key_le sd key) xs"
  using assms
  by (intro sorted_lists_equal [of _ _ sd key])
    (simp_all add: sorted_stable_sort filter_stable_sort)

section \<open>The comparator\<close>

lemma num_less_irrefl [simp]: "\<not> num_less n n"
  by (cases n) simp_all

lemma num_less_NaN [simp]: "\<not> num_less n NaN"
  by (cases n) simp_all

lemma compareUsers_string:
  assumes "sf \<noteq> Created_at" "string_valued sf a" "string_valued sf b"
  shows "compareUsers h sf sd a b =
     Inr (order_result sd (folded_key sf a < folded_key sf b) (folded_key sf b < folded_key sf a))"
  using assms
  by (auto simp add: compareUsers_def string_valued_def folded_key_def split: jsval.splits)

lemma compareUsers_date:
  assumes "valid_date h a" "valid_date h b"
  shows "compareUsers h Created_at sd a b =
     Inr (order_result sd (instant_key h a < instant_key h b) (instant_key h b < instant_key h a))"
  using assms
  by (auto simp add: compareUsers_def valid_date_def instant_key_def get_field_def ToNumber_def
      split: jsval.splits option.splits)

lemma compareUsers_folded:
  assumes "sf \<noteq> Created_at" "get_field p sf = JString s" "get_field q sf = JString t"
  shows "compareUsers h sf sd p q =
     Inr (order_result sd (toLowerCase s < toLowerCase t) (toLowerCase t < toLowerCase s))"
  using assms compareUsers_string [of sf p q h sd]
  by (simp add: string_valued_def folded_key_def)

lemma compareUsers_instants:
  assumes "created_at p = JString s" "created_at q = JString t"
    and "Date_parse h s = Some x" "Date_parse h t = Some y"
  shows "compareUsers h Created_at sd p q = Inr (order_result sd (x < y) (y < x))"
  using assms compareUsers_date [of h p q sd]
  by (simp add: valid_date_def instant_key_def new_Date_def)

lemma compareUsers_eq_0:
  assumes "well_formed h sf a" "well_formed h sf u"
  shows "compareUsers h sf sd a u = Inr 0 \<longleftrightarrow>
     (if sf = Created_at then instant_key h a = instant_key h u
      else folded_key sf a = folded_key sf u)"
  using assms
  by (auto simp add: well_formed_def compareUsers_date compareUsers_string order_result_eq_0)

lemma compareUsers_Desc:
  "compareUsers h sf Desc a b =
     (case compareUsers h sf Asc a b of Inl e \<Rightarrow> Inl e | Inr c \<Rightarrow> Inr (- c))"
  by (auto simp add: compareUsers_def Let_def order_result_def split: sum.splits)

lemma compareUsers_undefined_date:
  "created_at a = JUndefined \<Longrightarrow>
   compareUsers h Created_at sd a b = Inr 0 \<and> compareUsers h Created_at sd b a = Inr 0"
  by (cases "new_Date h (created_at b)")
    (simp_all add: compareUsers_def get_field_def new_Date_def order_result_def ToNumber_def
      split: jsval.splits)

lemma compareUsers_undefined_string:
  "sf \<noteq> Created_at \<Longrightarrow> get_field a sf = JUndefined \<Longrightarrow> compareUsers h sf sd a b = Inr 0"
  by (cases "get_field b sf")
    (simp_all add: compareUsers_def order_result_def ToNumber_def)

lemma compareUsers_TypeError:
  "sf \<noteq> Created_at \<Longrightarrow> get_field a sf = JString s \<Longrightarrow>
   get_field b sf = JUndefined \<or> get_field b sf = JNull \<Longrightarrow>
   compareUsers h sf sd a b = Inl TypeError"
  by (auto simp add: compareUsers_def)

lemma compareUsers_null_string:
  "sf \<noteq> Created_at \<Longrightarrow> get_field a sf = JNull \<Longrightarrow>
   compareUsers h sf sd a b =
     Inr (order_result sd (num_less (Finite 0) (ToNumber h (get_field b sf)))
            (num_less (ToNumber h (get_field b sf)) (Finite 0)))"
  by (cases "get_field b sf")
    (simp_all add: compareUsers_def ToNumber_def)

lemma null_date: "created_at a = JNull \<Longrightarrow> valid_date h a \<and> instant_key h a = 0"
  by (simp add: valid_date_def instant_key_def new_Date_def)

section \<open>The memo and the ordered view\<close>

text \<open>On well-formed rows the memo computes the specification's ordered view.\<close>

lemma sortedUsers_orderedView:
  assumes "\<forall>u\<in>set rows. well_formed h sf u"
  shows "sortedUsers h rows sf sd = Inr (orderedView h rows sf sd)"
proof (cases "sf = Created_at")
  case True
  with assms have "\<forall>x\<in>set rows. \<forall>y\<in>set rows.
      compareUsers h sf sd x y =
        Inr (order_result sd (instant_key h x < instant_key h y) (instant_key h y < instant_key h x))"
    by (simp add: well_formed_def compareUsers_date)
  then have "Array_sort (compareUsers h sf sd) rows =
      Inr (stable_sort (key_le sd (instant_key h)) rows)"
    using Array_sort_stable_sort [of rows "compareUsers h sf sd"
        "\<lambda>x y. order_result sd (instant_key h x < instant_key h y) (instant_key h y < instant_key h x)"]
    by (simp add: key_le_order_result)
  with True show ?thesis
    by (cases rows) (simp_all add: sortedUsers_def orderedView_def)
next
  case False
  with assms have "\<forall>x\<in>set rows. \<forall>y\<in>set rows.
      compareUsers h sf sd x y =
        Inr (order_result sd (folded_key sf x < folded_key sf y) (folded_key sf y < folded_key sf x))"
    by (simp add: well_formed_def compareUsers_string)
  then have "Array_sort (compareUsers h sf sd) rows =
      Inr (stable_sort (key_le sd (folded_key sf)) rows)"
    using Array_sort_stable_sort [of rows "compareUsers h sf sd"
        "\<lambda>x y. order_result sd (folded_key sf x < folded_key sf y) (folded_key sf y < folded_key sf x)"]
    by (simp add: key_le_order_result)
  with False show ?thesis
    by (cases rows) (simp_all add: sortedUsers_def orderedView_def)
qed

lemma mset_orderedView: "mset (orderedView h rows sf sd) = mset rows"
  by (simp add: orderedView_def)

lemma set_orderedView: "set (orderedView h rows sf sd) = set rows"
  by (simp add: orderedView_def)

lemma ordered_by_orderedView: "ordered_by h sf sd (orderedView h rows sf sd)"
  by (simp add: orderedView_def ordered_by_def sorted_stable_sort)

lemma orderedView_idem:
  "orderedView h (orderedView h rows sf sd) sf sd = orderedView h rows sf sd"
  by (simp add: orderedView_def stable_sort_idem)

lemma filter_orderedView:
  assumes "\<forall>u\<in>set rows. well_formed h sf u" "a \<in> set rows"
  shows "filter (\<lambda>u. compareUsers h sf sd a u = Inr 0) (orderedView h rows sf sd)
     = filter (\<lambda>u. compareUsers h sf sd a u = Inr 0) rows"
proof (cases "sf = Created_at")
  case True
  have "filter (\<lambda>u. compareUsers h sf sd a u = Inr 0) zs
      = filter (\<lambda>u. instant_key h u = instant_key h a) zs" if "set zs = set rows" for zs
    using that assms True by (intro filter_cong) (auto simp add: compareUsers_eq_0)
  then show ?thesis
    using True by (simp add: set_orderedView) (simp add: orderedView_def filter_stable_sort)
next
  case False
  have "filter (\<lambda>u. compareUsers h sf sd a u = Inr 0) zs
      = filter (\<lambda>u. folded_key sf u = folded_key sf a) zs" if "set zs = set rows" for zs
    using that assms False by (intro filter_cong) (auto simp add: compareUsers_eq_0)
  then show ?thesis
    using False by (simp add: set_orderedView) (simp add: orderedView_def filter_stable_sort)
qed

lemma toLowerCase_examples:
  "toLowerCase ''beta'' = ''beta''" "toLowerCase ''Alpha'' = ''alpha''"
  "toLowerCase ''gamma'' = ''gamma''"
  by code_simp+

lemma scenario_A:
  assumes "name a = JString ''beta''" "name b = JString ''Alpha''" "name c = JString ''gamma''"
  shows "sortedUsers h [a, b, c] Name Asc = Inr [b, a, c]"
  using assms
  by (simp add: sortedUsers_def compareUsers_def get_field_def order_result_def
      toLowerCase_examples less_char_def)

lemma sorted_wrt_hd: "sorted_wrt P ys \<Longrightarrow> a \<in> set ys \<Longrightarrow> hd ys = a \<or> P (hd ys) a"
  by (cases ys) auto

lemma sorted_wrt_last: "sorted_wrt P ys \<Longrightarrow> a \<in> set ys \<Longrightarrow> last ys = a \<or> P a (last ys)"
  by (induction ys) (auto split: if_splits)

lemma null_date_first:
  assumes wf: "\<forall>u\<in>set rows. valid_date h u \<and> 0 \<le> instant_key h u"
    and a: "a \<in> set rows" "created_at a = JNull"
  shows "instant_key h (hd (orderedView h rows Created_at Asc)) = 0"
    and "instant_key h (last (orderedView h rows Created_at Desc)) = 0"
proof -
  let ?ys = "orderedView h rows Created_at Asc"
  let ?zs = "orderedView h rows Created_at Desc"
  have k: "instant_key h a = 0"
    using a null_date by simp
  have ne: "?ys \<noteq> []" "?zs \<noteq> []"
    using a set_orderedView [of h rows Created_at Asc] set_orderedView [of h rows Created_at Desc]
    by auto
  have "sorted_wrt (key_le Asc (instant_key h)) ?ys"
    using ordered_by_orderedView [of h Created_at Asc rows] by (simp add: ordered_by_def)
  then have "hd ?ys = a \<or> key_le Asc (instant_key h) (hd ?ys) a"
    using a by (intro sorted_wrt_hd) (simp_all add: set_orderedView)
  moreover have "0 \<le> instant_key h (hd ?ys)"
    using wf ne hd_in_set [of ?ys] by (simp add: set_orderedView)
  ultimately show "instant_key h (hd ?ys) = 0"
    using k by (auto simp add: key_le_def)
  have "sorted_wrt (key_le Desc (instant_key h)) ?zs"
    using ordered_by_orderedView [of h Created_at Desc rows] by (simp add: ordered_by_def)
  then have "last ?zs = a \<or> key_le Desc (instant_key h) a (last ?zs)"
    using a by (intro sorted_wrt_last) (simp_all add: set_orderedView)
  moreover have "0 \<le> instant_key h (last ?zs)"
    using wf ne last_in_set [of ?zs] by (simp add: set_orderedView)
  ultimately show "instant_key h (last ?zs) = 0"
    using k by (auto simp add: key_le_def)
qed

lemma rev_distinct_neq:
  assumes "distinct l" "a \<in> set l" "b \<in> set l" "a \<noteq> b"
  shows "rev l \<noteq> l"
proof
  assume r: "rev l = l"
  from assms(2) obtain x l' where l: "l = x # l'"
    by (cases l) auto
  have ne: "l' \<noteq> []"
    using assms(2,3,4) l by auto
  from r l have "rev l' @ [x] = x # l'"
    by simp
  with ne have "hd (rev l') = x"
    by (cases "rev l'") auto
  with ne have "last l' = x"
    by (simp add: hd_rev)
  with ne have "x \<in> set l'"
    using last_in_set [of l'] by simp
  with assms(1) l show False
    by simp
qed

lemma compareUsers_Desc_0:
  "compareUsers h sf Desc a b = Inr 0 \<longleftrightarrow> compareUsers h sf Asc a b = Inr 0"
  by (simp add: compareUsers_Desc split: sum.splits)

lemma rev_asc_neq_desc:
  assumes wf: "\<forall>u\<in>set rows. well_formed h sf u"
    and d: "distinct rows" and p: "p \<in> set rows" and q: "q \<in> set rows" and pq: "p \<noteq> q"
    and c: "compareUsers h sf Asc p q = Inr 0"
  shows "rev (orderedView h rows sf Asc) \<noteq> orderedView h rows sf Desc"
proof
  let ?F = "filter (\<lambda>u. compareUsers h sf Asc p u = Inr 0)"
  assume r: "rev (orderedView h rows sf Asc) = orderedView h rows sf Desc"
  have a: "?F (orderedView h rows sf Asc) = ?F rows"
    using filter_orderedView [OF wf p, of Asc] .
  have b: "?F (orderedView h rows sf Desc) = ?F rows"
    using filter_orderedView [OF wf p, of Desc] by (simp add: compareUsers_Desc_0)
  have "rev (?F rows) = rev (?F (orderedView h rows sf Asc))"
    by (simp only: a)
  also have "\<dots> = ?F (rev (orderedView h rows sf Asc))"
    by (rule rev_filter)
  also have "\<dots> = ?F (orderedView h rows sf Desc)"
    by (simp only: r)
  also have "\<dots> = ?F rows"
    by (rule b)
  finally have "rev (?F rows) = ?F rows" .
  moreover have "compareUsers h sf Asc p p = Inr 0"
    using wf p by (simp add: compareUsers_eq_0)
  then have "p \<in> set (?F rows)" "q \<in> set (?F rows)"
    using p q c by simp_all
  moreover have "distinct (?F rows)"
    using d by simp
  ultimately show False
    using rev_distinct_neq [of "?F rows" p q] pq by simp
qed

lemma sortedUsers_Desc_inverted:
  "sortedUsers h rows sf Desc =
     (if length rows = 0 then Inr []
      else Array_sort
        (\<lambda>a b. case compareUsers h sf Asc a b of Inl e \<Rightarrow> Inl e | Inr c \<Rightarrow> Inr (- c)) rows)"
proof -
  have "compareUsers h sf Desc =
      (\<lambda>a b. case compareUsers h sf Asc a b of Inl e \<Rightarrow> Inl e | Inr c \<Rightarrow> Inr (- c))"
    by (intro ext) (rule compareUsers_Desc)
  then show ?thesis
    by (simp add: sortedUsers_def)
qed

lemma duplicates_example:
  "\<exists>xs p q ys zs. distinct xs \<and> p \<in> set xs \<and> q \<in> set xs \<and> p \<noteq> q \<and>
     compareUsers h sf Asc p q = Inr 0 \<and>
     sortedUsers h xs sf Asc = Inr ys \<and> sortedUsers h xs sf Desc = Inr zs \<and> rev ys \<noteq> zs"
proof -
  let ?a = "named 1 ''ana''"
  let ?b = "named 2 ''ana''"
  have c: "compareUsers h sf sd ?a ?b = Inr 0" for sd
    by (cases sf)
      (simp_all add: compareUsers_def get_field_def named_def dated_def new_Date_def
        order_result_def)
  have s: "sortedUsers h [?a, ?b] sf sd = Inr [?a, ?b]" for sd
    by (simp add: sortedUsers_def c)
  have n: "?a \<noteq> ?b"
    by (simp add: named_def dated_def)
  have "distinct [?a, ?b] \<and> ?a \<in> set [?a, ?b] \<and> ?b \<in> set [?a, ?b] \<and> ?a \<noteq> ?b \<and>
     compareUsers h sf Asc ?a ?b = Inr 0 \<and>
     sortedUsers h [?a, ?b] sf Asc = Inr [?a, ?b] \<and>
     sortedUsers h [?a, ?b] sf Desc = Inr [?a, ?b] \<and> rev [?a, ?b] \<noteq> [?a, ?b]"
    using c s n by simp
  then show ?thesis
    by blast
qed

lemma sorted_wrt_before:
  assumes "sorted_wrt P ys" "p \<in> set ys" "n \<in> set ys" "\<not> P n p" "p \<noteq> n"
  shows "\<exists>i j. i < j \<and> j < length ys \<and> ys ! i = p \<and> ys ! j = n"
proof -
  from assms(2,3) obtain i j where i: "i < length ys" "ys ! i = p"
    and j: "j < length ys" "ys ! j = n"
    by (auto simp add: in_set_conv_nth)
  have "i \<noteq> j"
    using i j assms(5) by auto
  moreover have "\<not> j < i"
    using sorted_wrt_nth_less [OF assms(1), of j i] i j assms(4) by auto
  ultimately have "i < j"
    by simp
  with i j show ?thesis
    by blast
qed

lemma null_after_pre_epoch:
  assumes wf: "\<forall>u\<in>set rows. valid_date h u"
    and n: "n \<in> set rows" "created_at n = JNull"
    and p: "p \<in> set rows" "instant_key h p < 0"
  shows "\<exists>i j. i < j \<and> j < length (orderedView h rows Created_at Asc) \<and>
      orderedView h rows Created_at Asc ! i = p \<and> orderedView h rows Created_at Asc ! j = n"
    and "\<exists>i j. i < j \<and> j < length (orderedView h rows Created_at Desc) \<and>
      orderedView h rows Created_at Desc ! i = n \<and> orderedView h rows Created_at Desc ! j = p"
proof -
  have k: "instant_key h n = 0"
    using n null_date by simp
  then have ne: "p \<noteq> n"
    using p by auto
  have "sorted_wrt (key_le Asc (instant_key h)) (orderedView h rows Created_at Asc)"
    using ordered_by_orderedView [of h Created_at Asc rows] by (simp add: ordered_by_def)
  then show "\<exists>i j. i < j \<and> j < length (orderedView h rows Created_at Asc) \<and>
      orderedView h rows Created_at Asc ! i = p \<and> orderedView h rows Created_at Asc ! j = n"
    using n p k ne
      sorted_wrt_before [of "key_le Asc (instant_key h)" "orderedView h rows Created_at Asc" p n]
    by (simp add: set_orderedView key_le_def)
  have "sorted_wrt (key_le Desc (instant_key h)) (orderedView h rows Created_at Desc)"
    using ordered_by_orderedView [of h Created_at Desc rows] by (simp add: ordered_by_def)
  then show "\<exists>i j. i < j \<and> j < length (orderedView h rows Created_at Desc) \<and>
      orderedView h rows Created_at Desc ! i = n \<and> orderedView h rows Created_at Desc ! j = p"
    using n p k ne
      sorted_wrt_before [of "key_le Desc (instant_key h)" "orderedView h rows Created_at Desc" n p]
    by (simp add: set_orderedView key_le_def)
qed

lemma null_before_post_epoch:
  assumes wf: "\<forall>u\<in>set rows. valid_date h u"
    and n: "n \<in> set rows" "created_at n = JNull"
    and q: "q \<in> set rows" "0 < instant_key h q"
  shows "\<exists>i j. i < j \<and> j < length (orderedView h rows Created_at Asc) \<and>
      orderedView h rows Created_at Asc ! i = n \<and> orderedView h rows Created_at Asc ! j = q"
    and "\<exists>i j. i < j \<and> j < length (orderedView h rows Created_at Desc) \<and>
      orderedView h rows Created_at Desc ! i = q \<and> orderedView h rows Created_at Desc ! j = n"
proof -
  have k: "instant_key h n = 0"
    using n null_date by simp
  then have ne: "n \<noteq> q"
    using q by auto
  have "sorted_wrt (key_le Asc (instant_key h)) (orderedView h rows Created_at Asc)"
    using ordered_by_orderedView [of h Created_at Asc rows] by (simp add: ordered_by_def)
  then show "\<exists>i j. i < j \<and> j < length (orderedView h rows Created_at Asc) \<and>
      orderedView h rows Created_at Asc ! i = n \<and> orderedView h rows Created_at Asc ! j = q"
    using n q k ne
      sorted_wrt_before [of "key_le Asc (instant_key h)" "orderedView h rows Created_at Asc" n q]
    by (simp add: set_orderedView key_le_def)
  have "sorted_wrt (key_le Desc (instant_key h)) (orderedView h rows Created_at Desc)"
    using ordered_by_orderedView [of h Created_at Desc rows] by (simp add: ordered_by_def)
  then show "\<exists>i j. i < j \<and> j < length (orderedView h rows Created_at Desc) \<and>
      orderedView h rows Created_at Desc ! i = q \<and> orderedView h rows Created_at Desc ! j = n"
    using n q k ne
      sorted_wrt_before [of "key_le Desc (instant_key h)" "orderedView h rows Created_at Desc" q n]
    by (simp add: set_orderedView key_le_def)
qed

section \<open>The ordering of the rows: theorems\<close>

text \<open>
  C2. All rows well formed for the field (a string for \<open>name\<close> and \<open>email\<close>, a valid
  date for \<open>created_at\<close>): \<open>sortedUsers\<close> returns a permutation of the rows ordered by
  the field's key in the given direction, the instant for \<open>created_at\<close> and the
  lower-cased string for \<open>name\<close> and \<open>email\<close>. The comparator orders two string values
  of \<open>name\<close> or \<open>email\<close> by their lower-cased forms, and two date strings by the
  instants they parse to. Rows named \<open>beta\<close>, \<open>Alpha\<close>, \<open>gamma\<close> come out, by name
  ascending, as \<open>Alpha\<close>, \<open>beta\<close>, \<open>gamma\<close>.
\<close>

theorem sortedUsers_ordered:
  "((\<forall>u\<in>set rows. well_formed h sf u) \<longrightarrow>
      (\<exists>ys. sortedUsers h rows sf sd = Inr ys \<and> mset ys = mset rows \<and>
         ordered_by h sf sd ys)) \<and>
   (sf \<noteq> Created_at \<and> get_field p sf = JString s \<and> get_field q sf = JString t \<longrightarrow>
      compareUsers h sf sd p q =
        Inr (order_result sd (toLowerCase s < toLowerCase t) (toLowerCase t < toLowerCase s))) \<and>
   (created_at p = JString s \<and> created_at q = JString t \<and>
      Date_parse h s = Some x \<and> Date_parse h t = Some y \<longrightarrow>
      compareUsers h Created_at sd p q = Inr (order_result sd (x < y) (y < x))) \<and>
   (name a = JString ''beta'' \<and> name b = JString ''Alpha'' \<and> name c = JString ''gamma'' \<longrightarrow>
      sortedUsers h [a, b, c] Name Asc = Inr [b, a, c])"
  by (simp add: sortedUsers_orderedView mset_orderedView ordered_by_orderedView scenario_A
      compareUsers_folded compareUsers_instants)

text \<open>
  The witness: two rows whose date strings are in one order as strings and in the other
  as instants come out by instant; two names whose order by code units is the opposite of
  their order by letter compare by letter; and the three rows of the scenario.
\<close>

theorem sortedUsers_ordered_witness:
  "well_formed example_host Created_at (dated 1 ''ana'' (JString ''2023-12-31T23:00:00Z'')) \<and>
   well_formed example_host Created_at
     (dated 2 ''Bea'' (JString ''2024-01-01T00:00:00+02:00'')) \<and>
   ''2023-12-31T23:00:00Z'' < ''2024-01-01T00:00:00+02:00'' \<and>
   sortedUsers example_host
     [dated 1 ''ana'' (JString ''2023-12-31T23:00:00Z''),
      dated 2 ''Bea'' (JString ''2024-01-01T00:00:00+02:00'')] Created_at Asc
     = Inr [dated 2 ''Bea'' (JString ''2024-01-01T00:00:00+02:00''),
            dated 1 ''ana'' (JString ''2023-12-31T23:00:00Z'')] \<and>
   ordered_by example_host Created_at Asc
     [dated 2 ''Bea'' (JString ''2024-01-01T00:00:00+02:00''),
      dated 1 ''ana'' (JString ''2023-12-31T23:00:00Z'')] \<and>
   compareUsers example_host Name Asc
     (dated 1 ''ana'' (JString ''2023-12-31T23:00:00Z''))
     (dated 2 ''Bea'' (JString ''2024-01-01T00:00:00+02:00'')) = Inr (- 1) \<and>
   \<not> ''ana'' < ''Bea'' \<and>
   compareUsers example_host Created_at Asc
     (dated 1 ''ana'' (JString ''2023-12-31T23:00:00Z''))
     (dated 2 ''Bea'' (JString ''2024-01-01T00:00:00+02:00'')) = Inr 1 \<and>
   name (named 1 ''beta'') = JString ''beta'' \<and>
   name (named 2 ''Alpha'') = JString ''Alpha'' \<and>
   name (named 3 ''gamma'') = JString ''gamma'' \<and>
   sortedUsers example_host [named 1 ''beta'', named 2 ''Alpha'', named 3 ''gamma''] Name Asc
     = Inr [named 2 ''Alpha'', named 1 ''beta'', named 3 ''gamma'']"
proof -
  let ?a = "dated 1 ''ana'' (JString ''2023-12-31T23:00:00Z'')"
  let ?b = "dated 2 ''Bea'' (JString ''2024-01-01T00:00:00+02:00'')"
  have wa: "well_formed example_host Created_at ?a" by code_simp
  have wb: "well_formed example_host Created_at ?b" by code_simp
  have lt: "''2023-12-31T23:00:00Z'' < ''2024-01-01T00:00:00+02:00''" by code_simp
  have nlt: "\<not> ''ana'' < ''Bea''" by code_simp
  have ev: "sortedUsers example_host [?a, ?b] Created_at Asc = Inr [?b, ?a]" by code_simp
  have f: "get_field ?a Name = JString ''ana''" "get_field ?b Name = JString ''Bea''"
    "created_at ?a = JString ''2023-12-31T23:00:00Z''"
    "created_at ?b = JString ''2024-01-01T00:00:00+02:00''"
    by (simp_all add: dated_def get_field_def)
  have d: "Date_parse example_host ''2023-12-31T23:00:00Z'' = Some 1704063600000"
    "Date_parse example_host ''2024-01-01T00:00:00+02:00'' = Some 1704060000000"
    by (simp_all add: example_host_def)
  have l: "toLowerCase ''ana'' = ''ana''" "toLowerCase ''Bea'' = ''bea''"
    "''ana'' < ''bea''"
    by code_simp+
  have n: "name (named 1 ''beta'') = JString ''beta''"
    "name (named 2 ''Alpha'') = JString ''Alpha''"
    "name (named 3 ''gamma'') = JString ''gamma''"
    by (simp_all add: named_def dated_def)
  note t1 = sortedUsers_ordered [of "[?a, ?b]" example_host Created_at Asc ?a
      "''2023-12-31T23:00:00Z''" ?b "''2024-01-01T00:00:00+02:00''"
      1704063600000 1704060000000
      "named 1 ''beta''" "named 2 ''Alpha''" "named 3 ''gamma''"]
  note t2 = sortedUsers_ordered [of "[]" example_host Name Asc ?a "''ana''" ?b "''Bea''"]
  from t1 wa wb ev have ob: "ordered_by example_host Created_at Asc [?b, ?a]"
    by simp
  from t1 f d have cd: "compareUsers example_host Created_at Asc ?a ?b = Inr 1"
    by (simp add: order_result_def)
  from t2 f l have cn: "compareUsers example_host Name Asc ?a ?b = Inr (- 1)"
    by (simp add: order_result_def)
  from t1 n have sc: "sortedUsers example_host
      [named 1 ''beta'', named 2 ''Alpha'', named 3 ''gamma''] Name Asc
     = Inr [named 2 ''Alpha'', named 1 ''beta'', named 3 ''gamma'']"
    by simp
  from wa wb lt ev ob cn nlt cd n sc show ?thesis
    by (intro conjI)
qed

text \<open>
  C3. All rows well formed for the field: \<open>sortedUsers\<close> is a stable sort. Its output
  is a permutation of the rows, ordered by the field's key in the given direction, and
  the rows that compare equal to a given row (the comparator returns 0) are in the output
  in the order they have in the input. Descending is the comparator with its sign
  inverted, on every pair of rows, and the descending memo is \<open>sort\<close> with that
  inverted comparator. So whenever rows that are pairwise different contain two rows of
  equal key, the ascending output reversed is not the descending output; and for every
  field there is such a list.
\<close>

theorem sortedUsers_stable:
  "((\<forall>u\<in>set rows. well_formed h sf u) \<longrightarrow>
      (\<exists>ys. sortedUsers h rows sf sd = Inr ys \<and> mset ys = mset rows \<and>
        ordered_by h sf sd ys \<and>
        (\<forall>a\<in>set rows.
           filter (\<lambda>u. compareUsers h sf sd a u = Inr 0) ys
             = filter (\<lambda>u. compareUsers h sf sd a u = Inr 0) rows))) \<and>
   compareUsers h sf Desc a b =
     (case compareUsers h sf Asc a b of Inl e \<Rightarrow> Inl e | Inr c \<Rightarrow> Inr (- c)) \<and>
   sortedUsers h rows sf Desc =
     (if length rows = 0 then Inr []
      else Array_sort
        (\<lambda>a b. case compareUsers h sf Asc a b of Inl e \<Rightarrow> Inl e | Inr c \<Rightarrow> Inr (- c))
        rows) \<and>
   ((\<forall>u\<in>set rows. well_formed h sf u) \<and> distinct rows \<and> p \<in> set rows \<and> q \<in> set rows \<and>
      p \<noteq> q \<and> compareUsers h sf Asc p q = Inr 0 \<longrightarrow>
      (\<exists>ys zs. sortedUsers h rows sf Asc = Inr ys \<and> sortedUsers h rows sf Desc = Inr zs \<and>
         rev ys \<noteq> zs)) \<and>
   (\<exists>xs p q ys zs. distinct xs \<and> p \<in> set xs \<and> q \<in> set xs \<and> p \<noteq> q \<and>
      compareUsers h sf Asc p q = Inr 0 \<and>
      sortedUsers h xs sf Asc = Inr ys \<and> sortedUsers h xs sf Desc = Inr zs \<and> rev ys \<noteq> zs)"
proof -
  have 1: "(\<forall>u\<in>set rows. well_formed h sf u) \<longrightarrow>
      (\<exists>ys. sortedUsers h rows sf sd = Inr ys \<and> mset ys = mset rows \<and>
        ordered_by h sf sd ys \<and>
        (\<forall>a\<in>set rows.
           filter (\<lambda>u. compareUsers h sf sd a u = Inr 0) ys
             = filter (\<lambda>u. compareUsers h sf sd a u = Inr 0) rows))"
    by (simp add: sortedUsers_orderedView mset_orderedView ordered_by_orderedView
        filter_orderedView)
  have 2: "(\<forall>u\<in>set rows. well_formed h sf u) \<and> distinct rows \<and> p \<in> set rows \<and>
      q \<in> set rows \<and> p \<noteq> q \<and> compareUsers h sf Asc p q = Inr 0 \<longrightarrow>
      (\<exists>ys zs. sortedUsers h rows sf Asc = Inr ys \<and> sortedUsers h rows sf Desc = Inr zs \<and>
         rev ys \<noteq> zs)"
    using rev_asc_neq_desc [of rows h sf p q] by (simp add: sortedUsers_orderedView)
  from 1 2 compareUsers_Desc [of h sf a b] sortedUsers_Desc_inverted [of h rows sf]
    duplicates_example [of h sf]
  show ?thesis
    by (intro conjI)
qed

text \<open>
  The witness: \<open>ana\<close> and \<open>Ana\<close> have one key; descending by name they follow \<open>bob\<close>
  in their input order, and the ascending output reversed has them the other way round.
\<close>

theorem sortedUsers_stable_witness:
  "well_formed example_host Name (named 1 ''ana'') \<and>
   well_formed example_host Name (named 2 ''bob'') \<and>
   well_formed example_host Name (named 3 ''Ana'') \<and>
   distinct [named 1 ''ana'', named 2 ''bob'', named 3 ''Ana''] \<and>
   named 1 ''ana'' \<noteq> named 3 ''Ana'' \<and>
   compareUsers example_host Name Asc (named 1 ''ana'') (named 3 ''Ana'') = Inr 0 \<and>
   sortedUsers example_host [named 1 ''ana'', named 2 ''bob'', named 3 ''Ana''] Name Desc
     = Inr [named 2 ''bob'', named 1 ''ana'', named 3 ''Ana''] \<and>
   mset [named 2 ''bob'', named 1 ''ana'', named 3 ''Ana'']
     = mset [named 1 ''ana'', named 2 ''bob'', named 3 ''Ana''] \<and>
   ordered_by example_host Name Desc [named 2 ''bob'', named 1 ''ana'', named 3 ''Ana''] \<and>
   filter (\<lambda>u. compareUsers example_host Name Desc (named 1 ''ana'') u = Inr 0)
       [named 2 ''bob'', named 1 ''ana'', named 3 ''Ana'']
     = filter (\<lambda>u. compareUsers example_host Name Desc (named 1 ''ana'') u = Inr 0)
       [named 1 ''ana'', named 2 ''bob'', named 3 ''Ana''] \<and>
   filter (\<lambda>u. compareUsers example_host Name Desc (named 1 ''ana'') u = Inr 0)
       [named 1 ''ana'', named 2 ''bob'', named 3 ''Ana'']
     = [named 1 ''ana'', named 3 ''Ana''] \<and>
   sortedUsers example_host [named 1 ''ana'', named 2 ''bob'', named 3 ''Ana''] Name Asc
     = Inr [named 1 ''ana'', named 3 ''Ana'', named 2 ''bob''] \<and>
   rev [named 1 ''ana'', named 3 ''Ana'', named 2 ''bob'']
     \<noteq> [named 2 ''bob'', named 1 ''ana'', named 3 ''Ana'']"
proof -
  let ?rows = "[named 1 ''ana'', named 2 ''bob'', named 3 ''Ana'']"
  let ?out = "[named 2 ''bob'', named 1 ''ana'', named 3 ''Ana'']"
  let ?asc = "[named 1 ''ana'', named 3 ''Ana'', named 2 ''bob'']"
  have w: "well_formed example_host Name (named 1 ''ana'')"
    "well_formed example_host Name (named 2 ''bob'')"
    "well_formed example_host Name (named 3 ''Ana'')"
    by code_simp+
  have d: "distinct ?rows" "named 1 ''ana'' \<noteq> named 3 ''Ana''"
    by (simp_all add: named_def dated_def)
  have ev: "sortedUsers example_host ?rows Name Desc = Inr ?out" by code_simp
  have asc: "sortedUsers example_host ?rows Name Asc = Inr ?asc" by code_simp
  have c: "compareUsers example_host Name Desc (named 1 ''ana'') (named 1 ''ana'') = Inr 0"
    "compareUsers example_host Name Desc (named 1 ''ana'') (named 2 ''bob'') = Inr 1"
    "compareUsers example_host Name Desc (named 1 ''ana'') (named 3 ''Ana'') = Inr 0"
    by code_simp+
  have c0: "compareUsers example_host Name Asc (named 1 ''ana'') (named 3 ''Ana'') = Inr 0"
    by code_simp
  have fl: "filter (\<lambda>u. compareUsers example_host Name Desc (named 1 ''ana'') u = Inr 0) ?rows
      = [named 1 ''ana'', named 3 ''Ana'']"
    by (simp add: c)
  have hyp: "\<forall>u\<in>set ?rows. well_formed example_host Name u"
    using w by simp
  note t = sortedUsers_stable [of ?rows example_host Name Desc _ _ "named 1 ''ana''"
      "named 3 ''Ana''"]
  from t [THEN conjunct1, THEN mp, OF hyp]
  obtain ys where ys: "sortedUsers example_host ?rows Name Desc = Inr ys"
    and ms: "mset ys = mset ?rows"
    and ob: "ordered_by example_host Name Desc ys"
    and st: "\<forall>a\<in>set ?rows.
        filter (\<lambda>u. compareUsers example_host Name Desc a u = Inr 0) ys
          = filter (\<lambda>u. compareUsers example_host Name Desc a u = Inr 0) ?rows"
    by blast
  from ys ev have e: "ys = ?out"
    by simp
  have m: "named 1 ''ana'' \<in> set ?rows" "named 3 ''Ana'' \<in> set ?rows"
    by simp_all
  from st m(1) e
  have f: "filter (\<lambda>u. compareUsers example_host Name Desc (named 1 ''ana'') u = Inr 0) ?out
      = filter (\<lambda>u. compareUsers example_host Name Desc (named 1 ''ana'') u = Inr 0) ?rows"
    by blast
  from ms e have ms': "mset ?out = mset ?rows"
    by (simp only:)
  from ob e have ob': "ordered_by example_host Name Desc ?out"
    by (simp only:)
  have pre: "(\<forall>u\<in>set ?rows. well_formed example_host Name u) \<and> distinct ?rows \<and>
      named 1 ''ana'' \<in> set ?rows \<and> named 3 ''Ana'' \<in> set ?rows \<and>
      named 1 ''ana'' \<noteq> named 3 ''Ana'' \<and>
      compareUsers example_host Name Asc (named 1 ''ana'') (named 3 ''Ana'') = Inr 0"
    using hyp d m c0 by (intro conjI)
  from t [THEN conjunct2, THEN conjunct2, THEN conjunct2, THEN conjunct1, THEN mp, OF pre]
  obtain ys' zs' where "sortedUsers example_host ?rows Name Asc = Inr ys'"
    "sortedUsers example_host ?rows Name Desc = Inr zs'" "rev ys' \<noteq> zs'"
    by blast
  with asc ev have rv: "rev ?asc \<noteq> ?out"
    by simp
  from w d c0 ev ms' ob' f fl asc rv show ?thesis
    by (intro conjI)
qed

text \<open>
  C6. All rows well formed for the field: \<open>sortedUsers\<close> returns a list, and
  \<open>sortedUsers\<close> with the same field and direction on that list returns the same list.
  More generally, a list that is ordered by the field in the direction comes back
  unchanged.
\<close>

theorem sortedUsers_idempotent:
  "\<forall>u\<in>set rows. well_formed h sf u \<Longrightarrow>
   (\<exists>ys. sortedUsers h rows sf sd = Inr ys \<and> sortedUsers h ys sf sd = Inr ys) \<and>
   (ordered_by h sf sd rows \<longrightarrow> sortedUsers h rows sf sd = Inr rows)"
  by (simp add: sortedUsers_orderedView set_orderedView orderedView_idem)
    (simp add: orderedView_def ordered_by_def stable_sort_sorted)

theorem sortedUsers_idempotent_witness:
  "well_formed example_host Email (named 1 ''carl'') \<and>
   well_formed example_host Email (named 2 ''Bea'') \<and>
   well_formed example_host Email (named 3 ''ana'') \<and>
   sortedUsers example_host [named 1 ''carl'', named 2 ''Bea'', named 3 ''ana''] Email Asc
     = Inr [named 3 ''ana'', named 2 ''Bea'', named 1 ''carl''] \<and>
   sortedUsers example_host [named 3 ''ana'', named 2 ''Bea'', named 1 ''carl''] Email Asc
     = Inr [named 3 ''ana'', named 2 ''Bea'', named 1 ''carl''] \<and>
   ordered_by example_host Name Desc [named 1 ''carl'', named 2 ''Bea'', named 3 ''ana''] \<and>
   sortedUsers example_host [named 1 ''carl'', named 2 ''Bea'', named 3 ''ana''] Name Desc
     = Inr [named 1 ''carl'', named 2 ''Bea'', named 3 ''ana'']"
proof -
  let ?rows = "[named 1 ''carl'', named 2 ''Bea'', named 3 ''ana'']"
  let ?out = "[named 3 ''ana'', named 2 ''Bea'', named 1 ''carl'']"
  have w: "well_formed example_host Email (named 1 ''carl'')"
    "well_formed example_host Email (named 2 ''Bea'')"
    "well_formed example_host Email (named 3 ''ana'')"
    by code_simp+
  have wn: "\<forall>u\<in>set ?rows. well_formed example_host Name u"
    by (simp add: well_formed_def string_valued_def get_field_def named_def dated_def)
  have ev: "sortedUsers example_host ?rows Email Asc = Inr ?out" by code_simp
  have ob: "ordered_by example_host Name Desc ?rows" by code_simp
  from sortedUsers_idempotent [of ?rows example_host Email Asc] w ev
  have a1: "sortedUsers example_host ?out Email Asc = Inr ?out"
    by simp
  from sortedUsers_idempotent [OF wn, of Desc] ob
  have a2: "sortedUsers example_host ?rows Name Desc = Inr ?rows"
    by blast
  from w ev a1 ob a2 show ?thesis
    by (intro conjI)
qed

text \<open>
  C8, as stated: a row whose value for the active field is missing or \<open>null\<close> is placed
  as the lowest value, first in ascending order. It fails. A row without \<open>created_at\<close>
  compares equal to every row, whichever of the two is passed first, so after a dated row
  it stays last, ascending. A \<open>null\<close> \<open>created_at\<close> is the epoch and stays after a row
  dated 1969. A row without a name is not put before a named row either: the comparator
  returns 0 when the row without a name is its first argument and raises \<open>TypeError\<close>
  when it is the second.
\<close>

theorem missing_values_counterexample:
  "sortedUsers example_host [named 1 ''ana'', dated 2 ''bea'' JUndefined] Created_at Asc
     = Inr [named 1 ''ana'', dated 2 ''bea'' JUndefined] \<and>
   compareUsers example_host Created_at Asc (named 1 ''ana'') (dated 2 ''bea'' JUndefined)
     = Inr 0 \<and>
   compareUsers example_host Created_at Asc (dated 2 ''bea'' JUndefined) (named 1 ''ana'')
     = Inr 0 \<and>
   sortedUsers example_host
     [dated 3 ''eva'' (JString ''1969-12-31T00:00:00Z''), dated 4 ''noa'' JNull] Created_at Asc
     = Inr [dated 3 ''eva'' (JString ''1969-12-31T00:00:00Z''), dated 4 ''noa'' JNull] \<and>
   compareUsers example_host Created_at Asc
     (dated 3 ''eva'' (JString ''1969-12-31T00:00:00Z'')) (dated 4 ''noa'' JNull) = Inr (- 1) \<and>
   compareUsers example_host Name Asc (nameless 5) (named 1 ''ana'') = Inr 0 \<and>
   compareUsers example_host Name Asc (named 1 ''ana'') (nameless 5) = Inl TypeError"
  by (intro conjI; code_simp)

text \<open>
  C8, amended. A row whose \<open>created_at\<close> is \<open>null\<close> is ordered as the epoch instant,
  time value 0, and not as the lowest value. Among rows with valid dates the output is a
  permutation ordered by the instant with the \<open>null\<close> row at 0: ascending, the
  \<open>null\<close> row comes after every row dated before the epoch and before every row dated
  after it, and the other way round descending; when no row is dated before the epoch,
  the first row ascending and the last row descending have time value 0. A row whose
  \<open>created_at\<close> is missing compares equal to every row, in both argument positions.
  For \<open>name\<close> and \<open>email\<close>, a row whose value is missing compares equal to every row
  when it is the first argument; a row whose value is \<open>null\<close> is compared, as first
  argument, as the number 0 with the numeric reading of the other value; and with a
  string as first argument and a missing or \<open>null\<close> value as second the comparator
  raises \<open>TypeError\<close>.
\<close>

theorem missing_values:
  "(created_at n = JNull \<longrightarrow> valid_date h n \<and> instant_key h n = 0) \<and>
   ((\<forall>u\<in>set rows. valid_date h u) \<longrightarrow>
      (\<exists>ys. sortedUsers h rows Created_at sd = Inr ys \<and> mset ys = mset rows \<and>
         sorted_wrt (key_le sd (instant_key h)) ys)) \<and>
   ((\<forall>u\<in>set rows. valid_date h u) \<and> n \<in> set rows \<and> created_at n = JNull \<and>
      p \<in> set rows \<and> instant_key h p < 0 \<longrightarrow>
      (\<exists>ys i j. sortedUsers h rows Created_at Asc = Inr ys \<and> i < j \<and> j < length ys \<and>
         ys ! i = p \<and> ys ! j = n) \<and>
      (\<exists>zs i j. sortedUsers h rows Created_at Desc = Inr zs \<and> i < j \<and> j < length zs \<and>
         zs ! i = n \<and> zs ! j = p)) \<and>
   ((\<forall>u\<in>set rows. valid_date h u) \<and> n \<in> set rows \<and> created_at n = JNull \<and>
      q \<in> set rows \<and> 0 < instant_key h q \<longrightarrow>
      (\<exists>ys i j. sortedUsers h rows Created_at Asc = Inr ys \<and> i < j \<and> j < length ys \<and>
         ys ! i = n \<and> ys ! j = q) \<and>
      (\<exists>zs i j. sortedUsers h rows Created_at Desc = Inr zs \<and> i < j \<and> j < length zs \<and>
         zs ! i = q \<and> zs ! j = n)) \<and>
   ((\<forall>u\<in>set rows. valid_date h u \<and> 0 \<le> instant_key h u) \<and> n \<in> set rows \<and>
      created_at n = JNull \<longrightarrow>
      (\<exists>ys. sortedUsers h rows Created_at Asc = Inr ys \<and> instant_key h (hd ys) = 0) \<and>
      (\<exists>zs. sortedUsers h rows Created_at Desc = Inr zs \<and> instant_key h (last zs) = 0)) \<and>
   (created_at a = JUndefined \<longrightarrow>
      compareUsers h Created_at sd a b = Inr 0 \<and> compareUsers h Created_at sd b a = Inr 0) \<and>
   (sf \<noteq> Created_at \<and> get_field a sf = JUndefined \<longrightarrow> compareUsers h sf sd a b = Inr 0) \<and>
   (sf \<noteq> Created_at \<and> get_field a sf = JNull \<longrightarrow>
      compareUsers h sf sd a b =
        Inr (order_result sd (num_less (Finite 0) (ToNumber h (get_field b sf)))
               (num_less (ToNumber h (get_field b sf)) (Finite 0)))) \<and>
   (sf \<noteq> Created_at \<and> get_field a sf = JString s \<and>
      (get_field b sf = JUndefined \<or> get_field b sf = JNull) \<longrightarrow>
      compareUsers h sf sd a b = Inl TypeError)"
proof -
  have s: "sortedUsers h rows Created_at sd' = Inr (orderedView h rows Created_at sd')"
    if "\<forall>u\<in>set rows. valid_date h u" for sd'
    using that by (intro sortedUsers_orderedView) (simp add: well_formed_def)
  have 1: "created_at n = JNull \<longrightarrow> valid_date h n \<and> instant_key h n = 0"
    using null_date [of n h] by simp
  have 2: "(\<forall>u\<in>set rows. valid_date h u) \<longrightarrow>
      (\<exists>ys. sortedUsers h rows Created_at sd = Inr ys \<and> mset ys = mset rows \<and>
         sorted_wrt (key_le sd (instant_key h)) ys)"
    using ordered_by_orderedView [of h Created_at sd rows]
    by (simp add: s mset_orderedView ordered_by_def)
  have 3: "(\<forall>u\<in>set rows. valid_date h u) \<and> n \<in> set rows \<and> created_at n = JNull \<and>
      p \<in> set rows \<and> instant_key h p < 0 \<longrightarrow>
      (\<exists>ys i j. sortedUsers h rows Created_at Asc = Inr ys \<and> i < j \<and> j < length ys \<and>
         ys ! i = p \<and> ys ! j = n) \<and>
      (\<exists>zs i j. sortedUsers h rows Created_at Desc = Inr zs \<and> i < j \<and> j < length zs \<and>
         zs ! i = n \<and> zs ! j = p)"
    using null_after_pre_epoch [of rows h n p] by (simp add: s)
  have 4: "(\<forall>u\<in>set rows. valid_date h u) \<and> n \<in> set rows \<and> created_at n = JNull \<and>
      q \<in> set rows \<and> 0 < instant_key h q \<longrightarrow>
      (\<exists>ys i j. sortedUsers h rows Created_at Asc = Inr ys \<and> i < j \<and> j < length ys \<and>
         ys ! i = n \<and> ys ! j = q) \<and>
      (\<exists>zs i j. sortedUsers h rows Created_at Desc = Inr zs \<and> i < j \<and> j < length zs \<and>
         zs ! i = q \<and> zs ! j = n)"
    using null_before_post_epoch [of rows h n q] by (simp add: s)
  have 5: "(\<forall>u\<in>set rows. valid_date h u \<and> 0 \<le> instant_key h u) \<and> n \<in> set rows \<and>
      created_at n = JNull \<longrightarrow>
      (\<exists>ys. sortedUsers h rows Created_at Asc = Inr ys \<and> instant_key h (hd ys) = 0) \<and>
      (\<exists>zs. sortedUsers h rows Created_at Desc = Inr zs \<and> instant_key h (last zs) = 0)"
    using null_date_first [of rows h n] by (simp add: s)
  have 6: "created_at a = JUndefined \<longrightarrow>
      compareUsers h Created_at sd a b = Inr 0 \<and> compareUsers h Created_at sd b a = Inr 0"
    using compareUsers_undefined_date [of a h sd b] by simp
  have 7: "sf \<noteq> Created_at \<and> get_field a sf = JUndefined \<longrightarrow>
      compareUsers h sf sd a b = Inr 0"
    using compareUsers_undefined_string [of sf a h sd b] by simp
  have 8: "sf \<noteq> Created_at \<and> get_field a sf = JNull \<longrightarrow>
      compareUsers h sf sd a b =
        Inr (order_result sd (num_less (Finite 0) (ToNumber h (get_field b sf)))
               (num_less (ToNumber h (get_field b sf)) (Finite 0)))"
    using compareUsers_null_string [of sf a h sd b] by simp
  have 9: "sf \<noteq> Created_at \<and> get_field a sf = JString s \<and>
      (get_field b sf = JUndefined \<or> get_field b sf = JNull) \<longrightarrow>
      compareUsers h sf sd a b = Inl TypeError"
    using compareUsers_TypeError [of sf a s b h sd] by simp
  from 1 2 3 4 5 6 7 8 9 show ?thesis
    by (intro conjI)
qed

text \<open>
  The witness: a \<open>null\<close> date between a row dated 1969 and a row dated 2024, in both
  directions; a \<open>null\<close> date first among rows none of which is before the epoch; and the
  comparator on rows without a date, without a name and with a \<open>null\<close> e-mail.
\<close>

theorem missing_values_witness:
  "valid_date example_host (named 1 ''ana'') \<and>
   valid_date example_host (dated 3 ''eva'' (JString ''1969-12-31T00:00:00Z'')) \<and>
   valid_date example_host (dated 4 ''noa'' JNull) \<and>
   created_at (dated 4 ''noa'' JNull) = JNull \<and>
   instant_key example_host (dated 4 ''noa'' JNull) = 0 \<and>
   instant_key example_host (dated 3 ''eva'' (JString ''1969-12-31T00:00:00Z'')) < 0 \<and>
   0 < instant_key example_host (named 1 ''ana'') \<and>
   sortedUsers example_host
     [dated 4 ''noa'' JNull, named 1 ''ana'',
      dated 3 ''eva'' (JString ''1969-12-31T00:00:00Z'')] Created_at Asc
     = Inr [dated 3 ''eva'' (JString ''1969-12-31T00:00:00Z''), dated 4 ''noa'' JNull,
            named 1 ''ana''] \<and>
   sorted_wrt (key_le Asc (instant_key example_host))
     [dated 3 ''eva'' (JString ''1969-12-31T00:00:00Z''), dated 4 ''noa'' JNull,
      named 1 ''ana''] \<and>
   (\<exists>i j. i < j \<and>
      j < length [dated 3 ''eva'' (JString ''1969-12-31T00:00:00Z''), dated 4 ''noa'' JNull,
            named 1 ''ana''] \<and>
      [dated 3 ''eva'' (JString ''1969-12-31T00:00:00Z''), dated 4 ''noa'' JNull,
       named 1 ''ana''] ! i = dated 3 ''eva'' (JString ''1969-12-31T00:00:00Z'') \<and>
      [dated 3 ''eva'' (JString ''1969-12-31T00:00:00Z''), dated 4 ''noa'' JNull,
       named 1 ''ana''] ! j = dated 4 ''noa'' JNull) \<and>
   (\<exists>i j. i < j \<and>
      j < length [dated 3 ''eva'' (JString ''1969-12-31T00:00:00Z''), dated 4 ''noa'' JNull,
            named 1 ''ana''] \<and>
      [dated 3 ''eva'' (JString ''1969-12-31T00:00:00Z''), dated 4 ''noa'' JNull,
       named 1 ''ana''] ! i = dated 4 ''noa'' JNull \<and>
      [dated 3 ''eva'' (JString ''1969-12-31T00:00:00Z''), dated 4 ''noa'' JNull,
       named 1 ''ana''] ! j = named 1 ''ana'') \<and>
   sortedUsers example_host
     [dated 4 ''noa'' JNull, named 1 ''ana'',
      dated 3 ''eva'' (JString ''1969-12-31T00:00:00Z'')] Created_at Desc
     = Inr [named 1 ''ana'', dated 4 ''noa'' JNull,
            dated 3 ''eva'' (JString ''1969-12-31T00:00:00Z'')] \<and>
   (\<exists>i j. i < j \<and>
      j < length [named 1 ''ana'', dated 4 ''noa'' JNull,
            dated 3 ''eva'' (JString ''1969-12-31T00:00:00Z'')] \<and>
      [named 1 ''ana'', dated 4 ''noa'' JNull,
       dated 3 ''eva'' (JString ''1969-12-31T00:00:00Z'')] ! i = dated 4 ''noa'' JNull \<and>
      [named 1 ''ana'', dated 4 ''noa'' JNull,
       dated 3 ''eva'' (JString ''1969-12-31T00:00:00Z'')] ! j
        = dated 3 ''eva'' (JString ''1969-12-31T00:00:00Z'')) \<and>
   0 \<le> instant_key example_host (named 1 ''ana'') \<and>
   0 \<le> instant_key example_host (dated 4 ''noa'' JNull) \<and>
   sortedUsers example_host [named 1 ''ana'', dated 4 ''noa'' JNull] Created_at Asc
     = Inr [dated 4 ''noa'' JNull, named 1 ''ana''] \<and>
   instant_key example_host (hd [dated 4 ''noa'' JNull, named 1 ''ana'']) = 0 \<and>
   sortedUsers example_host [dated 4 ''noa'' JNull, named 1 ''ana''] Created_at Desc
     = Inr [named 1 ''ana'', dated 4 ''noa'' JNull] \<and>
   instant_key example_host (last [named 1 ''ana'', dated 4 ''noa'' JNull]) = 0 \<and>
   created_at (dated 2 ''bea'' JUndefined) = JUndefined \<and>
   compareUsers example_host Created_at Desc (dated 2 ''bea'' JUndefined) (named 1 ''ana'')
     = Inr 0 \<and>
   compareUsers example_host Created_at Desc (named 1 ''ana'') (dated 2 ''bea'' JUndefined)
     = Inr 0 \<and>
   get_field (nameless 5) Name = JUndefined \<and>
   compareUsers example_host Name Asc (nameless 5) (named 1 ''ana'') = Inr 0 \<and>
   get_field (nameless 5) Email = JNull \<and>
   compareUsers example_host Email Asc (nameless 5) (nameless 5) = Inr 0 \<and>
   get_field (named 1 ''ana'') Email = JString ''ana@test.com'' \<and>
   compareUsers example_host Email Asc (named 1 ''ana'') (nameless 5) = Inl TypeError"
proof -
  let ?x = "named 1 ''ana''"
  let ?n = "dated 4 ''noa'' JNull"
  let ?u = "dated 2 ''bea'' JUndefined"
  let ?e = "dated 3 ''eva'' (JString ''1969-12-31T00:00:00Z'')"
  let ?rows = "[?n, ?x, ?e]"
  have v: "valid_date example_host ?x" "valid_date example_host ?e"
    "valid_date example_host ?n"
    by code_simp+
  have ks: "instant_key example_host ?e < 0" "0 < instant_key example_host ?x"
    by code_simp+
  have v0: "0 \<le> instant_key example_host ?x" "0 \<le> instant_key example_host ?n"
    by code_simp+
  have g: "created_at ?n = JNull" "created_at ?u = JUndefined"
    "get_field (nameless 5) Name = JUndefined" "get_field (nameless 5) Email = JNull"
    "get_field ?x Email = JString ''ana@test.com''"
    by (simp_all add: named_def dated_def nameless_def get_field_def)
  have ev3: "sortedUsers example_host ?rows Created_at Asc = Inr [?e, ?n, ?x]"
    "sortedUsers example_host ?rows Created_at Desc = Inr [?x, ?n, ?e]"
    by code_simp+
  have ev: "sortedUsers example_host [?x, ?n] Created_at Asc = Inr [?n, ?x]"
    "sortedUsers example_host [?n, ?x] Created_at Desc = Inr [?x, ?n]"
    by code_simp+
  have all3: "\<forall>u\<in>set ?rows. valid_date example_host u"
    using v by simp
  have m: "?n \<in> set ?rows" "?e \<in> set ?rows" "?x \<in> set ?rows"
    by simp_all
  note t0 = missing_values [of ?n example_host ?rows Asc ?e ?x ?u ?x Name "[]"]
  from t0 g have k0: "instant_key example_host ?n = 0"
    by blast
  from t0 [THEN conjunct2, THEN conjunct1, THEN mp, OF all3] ev3(1)
  have so: "sorted_wrt (key_le Asc (instant_key example_host)) [?e, ?n, ?x]"
    by auto
  have pre3: "(\<forall>u\<in>set ?rows. valid_date example_host u) \<and> ?n \<in> set ?rows \<and>
      created_at ?n = JNull \<and> ?e \<in> set ?rows \<and> instant_key example_host ?e < 0"
    using all3 m g ks by (intro conjI)
  have pre4: "(\<forall>u\<in>set ?rows. valid_date example_host u) \<and> ?n \<in> set ?rows \<and>
      created_at ?n = JNull \<and> ?x \<in> set ?rows \<and> 0 < instant_key example_host ?x"
    using all3 m g ks by (intro conjI)
  from t0 [THEN conjunct2, THEN conjunct2, THEN conjunct1, THEN mp, OF pre3] ev3
  have b1: "\<exists>i j. i < j \<and> j < length [?e, ?n, ?x] \<and> [?e, ?n, ?x] ! i = ?e \<and>
      [?e, ?n, ?x] ! j = ?n"
    and b2: "\<exists>i j. i < j \<and> j < length [?x, ?n, ?e] \<and> [?x, ?n, ?e] ! i = ?n \<and>
      [?x, ?n, ?e] ! j = ?e"
    by auto
  from t0 [THEN conjunct2, THEN conjunct2, THEN conjunct2, THEN conjunct1, THEN mp, OF pre4]
    ev3
  have b3: "\<exists>i j. i < j \<and> j < length [?e, ?n, ?x] \<and> [?e, ?n, ?x] ! i = ?n \<and>
      [?e, ?n, ?x] ! j = ?x"
    by auto
  note t1 = missing_values [of ?n example_host "[?x, ?n]" Desc ?e ?x ?u ?x Name "[]"]
  note t2 = missing_values [of ?n example_host "[?n, ?x]" Desc ?e ?x ?u ?x Name "[]"]
  note t3 = missing_values [of ?n example_host "[]" Asc ?e ?x "nameless 5" ?x Name "[]"]
  note t4 = missing_values [of ?n example_host "[]" Asc ?e ?x "nameless 5" "nameless 5"
      Email "[]"]
  note t5 = missing_values [of ?n example_host "[]" Asc ?e ?x ?x "nameless 5" Email
      "''ana@test.com''"]
  from t1 v v0 g ev have a1: "instant_key example_host (hd [?n, ?x]) = 0"
    by simp
  from t2 v v0 g ev have a2: "instant_key example_host (last [?x, ?n]) = 0"
    by simp
  from t1 g have a3: "compareUsers example_host Created_at Desc ?u ?x = Inr 0"
    "compareUsers example_host Created_at Desc ?x ?u = Inr 0"
    by simp_all
  from t3 g have a4: "compareUsers example_host Name Asc (nameless 5) ?x = Inr 0"
    by simp
  from t4 g have a5: "compareUsers example_host Email Asc (nameless 5) (nameless 5) = Inr 0"
    by (simp add: ToNumber_def order_result_def)
  from t5 g have a6: "compareUsers example_host Email Asc ?x (nameless 5) = Inl TypeError"
    by simp
  from v g k0 ks ev3 so b1 b3 b2 v0 ev a1 a2 a3 a4 a5 a6 show ?thesis
    by (intro conjI)
qed

section \<open>The session: theorems\<close>

lemma getItem_clear_session [simp]:
  "getItem (localStorage (clear_session br)) ''authToken'' = None"
  "getItem (localStorage (clear_session br)) ''user'' = None"
  by (simp_all add: clear_session_def getItem_def removeItem_def)

lemma clear_session_absent:
  assumes "getItem (localStorage br) ''authToken'' = None"
    and "getItem (localStorage br) ''user'' = None"
  shows "clear_session br = br"
proof -
  have "removeItem ''user'' (removeItem ''authToken'' (localStorage br)) = localStorage br"
    using assms by (auto simp add: removeItem_def getItem_def fun_eq_iff)
  then show ?thesis
    by (simp add: clear_session_def)
qed

lemma signed_out_clear_session [simp]: "signed_out ((clear_session br)\<lparr>location := ''/login''\<rparr>)"
  by (simp add: signed_out_def clear_session_def getItem_def removeItem_def)

lemma api_request_401:
  assumes "server (request_interceptor br config) = Some r" "status r = 401"
  shows "api_request server config br = (Inl (Some r), (clear_session br)\<lparr>location := ''/login''\<rparr>)"
  using assms by (simp add: api_request_def response_error_interceptor_def)

lemma api_request_resolved:
  assumes "server (request_interceptor br config) = Some r" "200 \<le> status r" "status r < 300"
  shows "api_request server config br = (Inr (data r), br)"
  using assms by (simp add: api_request_def)

text \<open>A call of the client changes nothing of the browser unless the status is 401.\<close>

lemma api_request_browser:
  "snd (api_request server config br) = br \<or>
   snd (api_request server config br) = (clear_session br)\<lparr>location := ''/login''\<rparr>"
  by (simp add: api_request_def response_error_interceptor_def split: option.splits)

lemma handleLogout_signed_out: "signed_out (handleLogout server br)"
  by (simp add: handleLogout_def split: prod.splits)

lemma localStorage_handleLogout:
  "localStorage (handleLogout server br) = localStorage (clear_session br)"
proof -
  have "localStorage (clear_session (snd (api_request server logout_request br)))
      = localStorage (clear_session br)"
    using api_request_browser [of server logout_request br]
    by (auto simp add: clear_session_def removeItem_def)
  then show ?thesis
    by (cases "api_request server logout_request br")
      (simp add: handleLogout_def authAPI_logout_def)
qed

lemma handleLogin_success:
  assumes "server (request_interceptor br (login_request mail password)) = Some r"
    and "200 \<le> status r" "status r < 300" "success (data r)"
  shows "handleLogin JSON_stringify server mail password br =
     br\<lparr>localStorage :=
          setItem ''user'' (JSON_stringify (user (data r)))
            (setItem ''authToken'' (token (data r)) (localStorage br)),
        location := ''/users''\<rparr>"
  using assms by (simp add: handleLogin_def authAPI_login_def api_request_resolved)

lemma handleLogin_stored:
  assumes "server (request_interceptor br (login_request mail password)) = Some r"
    and "200 \<le> status r" "status r < 300" "success (data r)"
  shows "getItem (localStorage (handleLogin JSON_stringify server mail password br)) ''authToken''
      = Some (token (data r))"
    and "getItem (localStorage (handleLogin JSON_stringify server mail password br)) ''user''
      = Some (JSON_stringify (user (data r)))"
  using assms by (simp_all add: handleLogin_success getItem_def setItem_def)

text \<open>
  C4. Any call through the client whose response has status 401 leaves the browser
  without the token key and without the user key and on the login path: the call of an
  arbitrary request, each of the four API functions, and each page handler that makes such
  a call.
\<close>

theorem status_401_signs_out:
  "(server (request_interceptor br config) = Some r \<and> status r = 401 \<longrightarrow>
      signed_out (snd (api_request server config br))) \<and>
   (server (request_interceptor br (login_request mail password)) = Some r \<and> status r = 401
      \<longrightarrow> signed_out (snd (authAPI_login server mail password br)) \<and>
        signed_out (handleLogin JSON_stringify server mail password br)) \<and>
   (server (request_interceptor br (register_request nm mail password confirmation)) = Some r \<and>
      status r = 401
      \<longrightarrow> signed_out (snd (authAPI_register server nm mail password confirmation br)) \<and>
        signed_out (snd (handleRegister server nm mail password confirmation br))) \<and>
   (server (request_interceptor br (getUsers_request sortBy sortDir)) = Some r \<and> status r = 401
      \<longrightarrow> signed_out (snd (usersAPI_getUsers server sortBy sortDir br))) \<and>
   (server (request_interceptor br (getUsers_request ''name'' ''asc'')) = Some r \<and>
      status r = 401
      \<longrightarrow> signed_out (snd (loadUsers server br))) \<and>
   (server (request_interceptor br logout_request) = Some r \<and> status r = 401
      \<longrightarrow> signed_out (snd (authAPI_logout server br)) \<and>
        signed_out (handleLogout server br))"
  by (simp add: api_request_401 authAPI_login_def handleLogin_def authAPI_register_def
      handleRegister_def usersAPI_getUsers_def loadUsers_def authAPI_logout_def
      handleLogout_signed_out)

theorem status_401_signs_out_witness:
  "rejecting_server (request_interceptor signed_in_browser logout_request)
     = Some \<lparr>status = 401, data = example_body\<lparr>success := False\<rparr>\<rparr> \<and>
   status \<lparr>status = 401, data = example_body\<lparr>success := False\<rparr>\<rparr> = 401 \<and>
   getItem (localStorage signed_in_browser) ''authToken'' = Some ''1|abc'' \<and>
   signed_out (snd (api_request rejecting_server logout_request signed_in_browser)) \<and>
   signed_out (snd (authAPI_login rejecting_server ''a@test.com'' ''123456'' signed_in_browser)) \<and>
   signed_out (handleLogin (\<lambda>u. u) rejecting_server ''a@test.com'' ''123456''
     signed_in_browser) \<and>
   signed_out (snd (authAPI_register rejecting_server ''Ana'' ''a@test.com'' ''123456''
     ''123456'' signed_in_browser)) \<and>
   signed_out (snd (handleRegister rejecting_server ''Ana'' ''a@test.com'' ''123456''
     ''123456'' signed_in_browser)) \<and>
   signed_out (snd (usersAPI_getUsers rejecting_server ''created_at'' ''desc''
     signed_in_browser)) \<and>
   signed_out (snd (loadUsers rejecting_server signed_in_browser)) \<and>
   signed_out (snd (authAPI_logout rejecting_server signed_in_browser)) \<and>
   signed_out (handleLogout rejecting_server signed_in_browser)"
proof -
  let ?r = "\<lparr>status = 401, data = example_body\<lparr>success := False\<rparr>\<rparr>"
  have s: "rejecting_server c = Some ?r" for c
    by (simp add: rejecting_server_def)
  have st: "status ?r = 401"
    by simp
  have g: "getItem (localStorage signed_in_browser) ''authToken'' = Some ''1|abc''"
    by (simp add: signed_in_browser_def getItem_def)
  note t = status_401_signs_out [of rejecting_server signed_in_browser logout_request ?r
      "''a@test.com''" "''123456''" "\<lambda>u. u" "''Ana''" "''123456''" "''created_at''" "''desc''"]
  from t s st g show ?thesis
    by simp
qed

text \<open>
  C7. After a successful login the token key holds the token of the response and the
  user key holds the serialised user of the response, whatever was stored before. After
  the session is cleared, in \<open>handleLogout\<close> as in the response interceptor, both keys
  are absent. Clearing a session that has neither key changes nothing and raises nothing.
\<close>

theorem session_round_trip:
  "(server (request_interceptor br (login_request mail password)) = Some r \<and>
      200 \<le> status r \<and> status r < 300 \<and> success (data r) \<longrightarrow>
      getItem (localStorage (handleLogin JSON_stringify server mail password br)) ''authToken''
        = Some (token (data r)) \<and>
      getItem (localStorage (handleLogin JSON_stringify server mail password br)) ''user''
        = Some (JSON_stringify (user (data r)))) \<and>
   getItem (localStorage (clear_session br)) ''authToken'' = None \<and>
   getItem (localStorage (clear_session br)) ''user'' = None \<and>
   getItem (localStorage (handleLogout server br)) ''authToken'' = None \<and>
   getItem (localStorage (handleLogout server br)) ''user'' = None \<and>
   (getItem (localStorage br) ''authToken'' = None \<and> getItem (localStorage br) ''user'' = None
      \<longrightarrow> clear_session br = br \<and> localStorage (handleLogout server br) = localStorage br)"
  by (simp add: handleLogin_stored localStorage_handleLogout clear_session_absent)

text \<open>
  The witness: a login on a browser that holds an older session, the logout that follows,
  and a logout on a browser that holds nothing.
\<close>

theorem session_round_trip_witness:
  "accepting_server (request_interceptor signed_in_browser (login_request ''a@test.com'' ''123456''))
     = Some \<lparr>status = 200, data = example_body\<rparr> \<and>
   success (data \<lparr>status = 200, data = example_body\<rparr>) \<and>
   getItem (localStorage
       (handleLogin (\<lambda>u. u) accepting_server ''a@test.com'' ''123456'' signed_in_browser))
     ''authToken'' = Some ''1|abc'' \<and>
   getItem (localStorage
       (handleLogin (\<lambda>u. u) accepting_server ''a@test.com'' ''123456'' signed_in_browser))
     ''user'' = Some ''{id:1}'' \<and>
   getItem (localStorage (handleLogout accepting_server
       (handleLogin (\<lambda>u. u) accepting_server ''a@test.com'' ''123456'' signed_in_browser)))
     ''authToken'' = None \<and>
   getItem (localStorage fresh_browser) ''authToken'' = None \<and>
   getItem (localStorage fresh_browser) ''user'' = None \<and>
   clear_session fresh_browser = fresh_browser \<and>
   localStorage (handleLogout accepting_server fresh_browser) = localStorage fresh_browser"
proof -
  let ?r = "\<lparr>status = 200, data = example_body\<rparr>"
  let ?in = "handleLogin (\<lambda>u. u) accepting_server ''a@test.com'' ''123456'' signed_in_browser"
  have s: "accepting_server c = Some ?r" for c
    by (simp add: accepting_server_def)
  have b: "success (data ?r)" "token (data ?r) = ''1|abc''" "user (data ?r) = ''{id:1}''"
    "(200::nat) \<le> status ?r" "status ?r < 300"
    by (simp_all add: example_body_def)
  have e: "getItem (localStorage fresh_browser) ''authToken'' = None"
    "getItem (localStorage fresh_browser) ''user'' = None"
    by (simp_all add: fresh_browser_def getItem_def)
  note t1 = session_round_trip [of accepting_server signed_in_browser "''a@test.com''"
      "''123456''" ?r "\<lambda>u. u"]
  note t2 = session_round_trip [of accepting_server ?in "''a@test.com''" "''123456''" ?r
      "\<lambda>u. u"]
  note t3 = session_round_trip [of accepting_server fresh_browser "''a@test.com''"
      "''123456''" ?r "\<lambda>u. u"]
  from t1 s b have a1: "getItem (localStorage ?in) ''authToken'' = Some ''1|abc''"
    "getItem (localStorage ?in) ''user'' = Some ''{id:1}''"
    by simp_all
  from t2 have a2: "getItem (localStorage (handleLogout accepting_server ?in)) ''authToken'' = None"
    by blast
  from t3 e have a3: "clear_session fresh_browser = fresh_browser"
    "localStorage (handleLogout accepting_server fresh_browser) = localStorage fresh_browser"
    by blast+
  from s b e a1 a2 a3 show ?thesis
    by (intro conjI) simp_all
qed

text \<open>
  C9. \<open>handleLogout\<close> removes the token key and the user key and goes to the login path
  whatever the logout call does: for every server, so when the call resolves, when it is
  rejected with a response and when no response arrives.
\<close>

theorem handleLogout_always_signs_out:
  "signed_out (handleLogout server br)"
  by (simp add: handleLogout_def split: prod.splits)

text \<open>
  The witness: the logout call resolves on the accepting server, is rejected with status
  401 on the rejecting server and gets no response on the failing server.
\<close>

theorem handleLogout_always_signs_out_witness:
  "fst (authAPI_logout accepting_server signed_in_browser) = Inr example_body \<and>
   signed_out (handleLogout accepting_server signed_in_browser) \<and>
   fst (authAPI_logout rejecting_server signed_in_browser)
     = Inl (Some \<lparr>status = 401, data = example_body\<lparr>success := False\<rparr>\<rparr>) \<and>
   signed_out (handleLogout rejecting_server signed_in_browser) \<and>
   fst (authAPI_logout failing_server signed_in_browser) = Inl None \<and>
   signed_out (handleLogout failing_server signed_in_browser)"
  using handleLogout_always_signs_out [of accepting_server signed_in_browser]
    handleLogout_always_signs_out [of rejecting_server signed_in_browser]
    handleLogout_always_signs_out [of failing_server signed_in_browser]
  by (simp add: authAPI_logout_def api_request_def response_error_interceptor_def
      accepting_server_def rejecting_server_def failing_server_def)

end
